theory Spec2Isabelle
  imports Main "HOL-Library.Sublist"
begin

section \<open>Quality profiles and the preset mapping\<close>

text \<open>
  \<^verbatim>\<open>PDFProcessor.__init__\<close> stores the dictionary \<^verbatim>\<open>quality_settings\<close>:
  three names, each with a quality percentage and a target DPI.
\<close>

record settings =
  quality :: int
  dpi :: int

definition quality_settings :: "string \<rightharpoonup> settings" where
  "quality_settings =
     [''low'' \<mapsto> \<lparr>quality = 30, dpi = 72\<rparr>,
      ''medium'' \<mapsto> \<lparr>quality = 60, dpi = 150\<rparr>,
      ''high'' \<mapsto> \<lparr>quality = 90, dpi = 300\<rparr>]"

text \<open>
  \<^verbatim>\<open>_get_gs_preset(self, dpi, quality)\<close>: an if/elif chain over \<^verbatim>\<open>dpi\<close>. The second
  parameter is received and never read; Python puts no type on it, so it is polymorphic here.
\<close>

definition get_gs_preset :: "int \<Rightarrow> 'q \<Rightarrow> string" where
  "get_gs_preset d q =
     (if d \<le> 72 then ''screen''
      else if d \<le> 150 then ''ebook''
      else if d \<le> 300 then ''printer''
      else ''prepress'')"

section \<open>The world the program runs in\<close>

text \<open>
  Paths are strings, as the program passes them to the library. A place in the file system
  is a location: the list of names from the root down to it. Two spellings of one file,
  such as \<^verbatim>\<open>in.pdf\<close> and \<^verbatim>\<open>./in.pdf\<close>, are two paths and one location. The file system
  maps a location to a directory or a regular file; it has no links and names are
  compared letter by letter, as on a POSIX file system, so a file has one location. A file
  carries its on-disk size and, when a PDF library can read it, its pages; the type of
  pages is a parameter, since the program never inspects one.
\<close>

type_synonym path = string

type_synonym location = "string list"

record 'p filedata =
  nbytes :: nat
  pages :: "'p list option"

datatype 'p node = Directory | Regular "'p filedata"

datatype mode = RB | WB

text \<open>
  Every call that touches the file system or starts a process leaves an event in the
  trace of the world, so that "never opened" and "never invoked" are statements about
  the trace.
\<close>

datatype event =
    Open path mode
  | GetSize path
  | Exists path
  | MkDtemp path
  | RmTree path
  | TempFile path
  | Which string
  | Run "string list"

text \<open>
  Exceptions as values. \<open>InvalidQuality\<close> is the \<^verbatim>\<open>ValueError\<close> of \<^verbatim>\<open>compress_pdf\<close>,
  \<open>GsNotFound\<close> and \<open>GsFailed\<close> are the two \<^verbatim>\<open>RuntimeError\<close>s of \<^verbatim>\<open>_run_ghostscript\<close>,
  \<open>CalledProcessError\<close> is what \<^verbatim>\<open>subprocess.run(check=True)\<close> raises on a non-zero
  exit status; the others are the exceptions of the Python library calls.
\<close>

datatype error =
    InvalidQuality
  | GsNotFound
  | GsFailed int
  | CalledProcessError int
  | FileNotFoundError path
  | IsADirectoryError path
  | NotADirectoryError path
  | PermissionError path
  | PdfReadError path
  | FileExistsError
  | ZeroDivisionError

record 'p world =
  fs :: "location \<rightharpoonup> 'p node"
  trace :: "event list"

text \<open>
  What the platform and the libraries decide, as parameters: the working directory of
  the process, the number of bytes \<^verbatim>\<open>PdfWriter.write\<close> produces for a page list, the
  candidate names \<^verbatim>\<open>tempfile\<close> tries, which paths the process has permission to open for
  writing, the executable search path, the external engine (exit status, and the file it
  leaves at the path given by \<^verbatim>\<open>-sOutputFile=\<close>, if any), the size reported for a
  directory, and the three \<^verbatim>\<open>os.path\<close> functions used for the default prefix.
\<close>

record 'p env =
  cwd :: location
  doc_size :: "'p list \<Rightarrow> nat"
  tmp_names :: "path list"
  writable :: "path \<Rightarrow> bool"
  which :: "string \<Rightarrow> path option"
  engine :: "string list \<Rightarrow> (location \<rightharpoonup> 'p node) \<Rightarrow> int \<times> 'p filedata option"
  dir_size :: nat
  basename :: "path \<Rightarrow> path"
  dirname :: "path \<Rightarrow> path"
  splitext :: "path \<Rightarrow> path \<times> string"

subsection \<open>Paths\<close>

text \<open>\<^verbatim>\<open>os.path.join(a, b)\<close> for two components, as \<^verbatim>\<open>posixpath\<close> computes it.\<close>

definition dir_prefix :: "path \<Rightarrow> path" where
  "dir_prefix d = (if d = [] \<or> last d = CHR ''/'' then d else d @ ''/'')"

definition path_join :: "path \<Rightarrow> path \<Rightarrow> path" where
  "path_join a b = (if b \<noteq> [] \<and> hd b = CHR ''/'' then b else dir_prefix a @ b)"

text \<open>
  How the operating system reads a path. \<^verbatim>\<open>p.split('/')\<close> cuts it at the separators; empty
  pieces (repeated, leading and trailing separators) name nothing, and a trailing separator
  asks for a directory, as a final \<^verbatim>\<open>.\<close> does.
\<close>

fun split_slash :: "string \<Rightarrow> string list" where
  "split_slash [] = [Nil]"
| "split_slash (c # cs) =
     (if c = CHR ''/'' then [] # split_slash cs
      else (case split_slash cs of [] \<Rightarrow> [c] # [] | x # xs \<Rightarrow> (c # x) # xs))"

definition components :: "path \<Rightarrow> string list" where
  "components p =
     filter (\<lambda>c. c \<noteq> []) (split_slash p) @
     (if p \<noteq> [] \<and> last p = CHR ''/'' then [''.''] else [])"

text \<open>
  One step from a location: \<^verbatim>\<open>.\<close> stays, \<^verbatim>\<open>..\<close> goes to the parent (the root is its own
  parent), a name goes to the entry of that name. A path that begins with a separator is
  read from the root, any other from the working directory.
\<close>

definition enter :: "location \<Rightarrow> string \<Rightarrow> location" where
  "enter loc c = (if c = ''.'' then loc else if c = ''..'' then butlast loc else loc @ [c])"

definition start_of :: "location \<Rightarrow> path \<Rightarrow> location" where
  "start_of wd p = (if p \<noteq> [] \<and> hd p = CHR ''/'' then [] else wd)"

text \<open>
  The location a path names: where reading it ends. It depends on the spelling and on the
  working directory only.
\<close>

definition resolve :: "'p env \<Rightarrow> path \<Rightarrow> location" where
  "resolve E p = foldl enter (start_of (cwd E) p) (components p)"

text \<open>
  Reading a path in a file system: a step is taken from a directory only, so every
  location on the way but the last must be an existing directory. A missing one gives
  \<^verbatim>\<open>ENOENT\<close> (\<^verbatim>\<open>FileNotFoundError\<close>), a regular file gives \<^verbatim>\<open>ENOTDIR\<close>
  (\<^verbatim>\<open>NotADirectoryError\<close>). The last location may hold anything or nothing: the caller
  decides. The empty path names nothing.
\<close>

fun walk :: "(location \<rightharpoonup> 'p node) \<Rightarrow> path \<Rightarrow> location \<Rightarrow> string list \<Rightarrow> error + location" where
  "walk files p loc [] = Inr loc"
| "walk files p loc (c # cs) =
     (case files loc of
        None \<Rightarrow> Inl (FileNotFoundError p)
      | Some (Regular f) \<Rightarrow> Inl (NotADirectoryError p)
      | Some Directory \<Rightarrow> walk files p (enter loc c) cs)"

definition locate :: "'p env \<Rightarrow> 'p world \<Rightarrow> path \<Rightarrow> error + location" where
  "locate E w p =
     (if p = [] then Inl (FileNotFoundError p)
      else walk (fs w) p (start_of (cwd E) p) (components p))"

text \<open>What a path names in a world: nothing when it cannot be read or its location is empty.\<close>

definition file_at :: "'p env \<Rightarrow> 'p world \<Rightarrow> path \<Rightarrow> 'p node option" where
  "file_at E w p = (case locate E w p of Inl e \<Rightarrow> None | Inr loc \<Rightarrow> fs w loc)"

subsection \<open>Library calls\<close>

text \<open>
  \<^verbatim>\<open>open(p, "rb")\<close>: the file must exist and be a regular file. The model hands back the
  file as it is at the time of the call.
\<close>

definition open_rb :: "'p env \<Rightarrow> path \<Rightarrow> 'p world \<Rightarrow> (error + 'p filedata) \<times> 'p world" where
  "open_rb E p w =
     (let w1 = w\<lparr>trace := trace w @ [Open p RB]\<rparr>
      in case locate E w p of
           Inl e \<Rightarrow> (Inl e, w1)
         | Inr loc \<Rightarrow>
             (case fs w loc of
                None \<Rightarrow> (Inl (FileNotFoundError p), w1)
              | Some Directory \<Rightarrow> (Inl (IsADirectoryError p), w1)
              | Some (Regular f) \<Rightarrow> (Inr f, w1)))"

text \<open>\<^verbatim>\<open>os.path.getsize(p)\<close>.\<close>

definition getsize :: "'p env \<Rightarrow> path \<Rightarrow> 'p world \<Rightarrow> (error + nat) \<times> 'p world" where
  "getsize E p w =
     (let w1 = w\<lparr>trace := trace w @ [GetSize p]\<rparr>
      in case locate E w p of
           Inl e \<Rightarrow> (Inl e, w1)
         | Inr loc \<Rightarrow>
             (case fs w loc of
                None \<Rightarrow> (Inl (FileNotFoundError p), w1)
              | Some Directory \<Rightarrow> (Inr (dir_size E), w1)
              | Some (Regular f) \<Rightarrow> (Inr (nbytes f), w1)))"

text \<open>\<^verbatim>\<open>os.path.exists(p)\<close>: false also when the path cannot be read.\<close>

definition path_exists :: "'p env \<Rightarrow> path \<Rightarrow> 'p world \<Rightarrow> bool \<times> 'p world" where
  "path_exists E p w = (file_at E w p \<noteq> None, w\<lparr>trace := trace w @ [Exists p]\<rparr>)"

text \<open>\<^verbatim>\<open>PdfReader(f)\<close> and \<^verbatim>\<open>pdf.pages\<close>: the pages of the file, or an error when it is no PDF.\<close>

definition pdf_reader :: "path \<Rightarrow> 'p filedata \<Rightarrow> error + 'p list" where
  "pdf_reader p f = (case pages f of None \<Rightarrow> Inl (PdfReadError p) | Some ps \<Rightarrow> Inr ps)"

text \<open>The file \<^verbatim>\<open>PdfWriter.write\<close> produces for a writer holding the pages \<open>ps\<close>.\<close>

definition written :: "'p env \<Rightarrow> 'p list \<Rightarrow> 'p filedata" where
  "written E ps = \<lparr>nbytes = doc_size E ps, pages = Some ps\<rparr>"

text \<open>
  \<^verbatim>\<open>with open(p, "wb") as f_out: writer.write(f_out)\<close>: the directories on the way must
  exist, the location must not be a directory, and the process must have permission; then
  the file at that location, new or old, holds the writer's pages.
\<close>

definition write_pdf :: "'p env \<Rightarrow> path \<Rightarrow> 'p list \<Rightarrow> 'p world \<Rightarrow> (error + unit) \<times> 'p world" where
  "write_pdf E p ps w =
     (let w1 = w\<lparr>trace := trace w @ [Open p WB]\<rparr>
      in case locate E w p of
           Inl e \<Rightarrow> (Inl e, w1)
         | Inr loc \<Rightarrow>
             if fs w loc = Some Directory then (Inl (IsADirectoryError p), w1)
             else if \<not> writable E p then (Inl (PermissionError p), w1)
             else (Inr (), w1\<lparr>fs := (fs w)(loc \<mapsto> Regular (written E ps))\<rparr>))"

text \<open>
  \<^verbatim>\<open>tempfile.mkdtemp()\<close> tries candidate names: a name that exists is skipped
  (\<^verbatim>\<open>FileExistsError\<close> is caught), and \<^verbatim>\<open>mkdir\<close> at the first name that does not exist
  either creates the directory or raises, when the directories on the way are missing.
  When every name is taken the call raises \<^verbatim>\<open>FileExistsError\<close>.
\<close>

definition mkdtemp :: "'p env \<Rightarrow> 'p world \<Rightarrow> (error + path) \<times> 'p world" where
  "mkdtemp E w =
     (case find (\<lambda>t. file_at E w t = None) (tmp_names E) of
        None \<Rightarrow> (Inl FileExistsError, w)
      | Some d \<Rightarrow>
          (case locate E w d of
             Inl e \<Rightarrow> (Inl e, w)
           | Inr loc \<Rightarrow>
               (Inr d, w\<lparr>fs := (fs w)(loc \<mapsto> Directory), trace := trace w @ [MkDtemp d]\<rparr>)))"

text \<open>
  \<^verbatim>\<open>shutil.rmtree(d)\<close> removes the directory and everything under it; it raises when \<open>d\<close>
  is missing or is no directory.
\<close>

definition rmtree :: "'p env \<Rightarrow> path \<Rightarrow> 'p world \<Rightarrow> (error + unit) \<times> 'p world" where
  "rmtree E d w =
     (let w1 = w\<lparr>trace := trace w @ [RmTree d]\<rparr>
      in case locate E w d of
           Inl e \<Rightarrow> (Inl e, w1)
         | Inr loc \<Rightarrow>
             (case fs w loc of
                None \<Rightarrow> (Inl (FileNotFoundError d), w1)
              | Some (Regular f) \<Rightarrow> (Inl (NotADirectoryError d), w1)
              | Some Directory \<Rightarrow>
                  (Inr (), w1\<lparr>fs := (\<lambda>k. if prefix loc k then None else fs w k)\<rparr>)))"

text \<open>
  \<^verbatim>\<open>shutil.which(name)\<close>, as the condition \<^verbatim>\<open>if not shutil.which("gs")\<close> reads it: a
  missing result and an empty string are both false.
\<close>

definition shutil_which :: "'p env \<Rightarrow> string \<Rightarrow> 'p world \<Rightarrow> bool \<times> 'p world" where
  "shutil_which E name w =
     ((case which E name of None \<Rightarrow> False | Some p \<Rightarrow> p \<noteq> []),
      w\<lparr>trace := trace w @ [Which name]\<rparr>)"

text \<open>The path an engine command line names as its output file, if it names one.\<close>

definition output_file_arg :: "string list \<Rightarrow> path option" where
  "output_file_arg cmd =
     (case find (prefix ''-sOutputFile='') cmd of
        None \<Rightarrow> None
      | Some a \<Rightarrow> Some (drop (length ''-sOutputFile='') a))"

text \<open>
  \<^verbatim>\<open>subprocess.run(cmd, check=True)\<close>: the engine runs in the working directory of the
  process, may leave a regular file at the location its output path names (it cannot
  replace a directory, nor write where the path cannot be read), and a non-zero exit
  status raises \<^verbatim>\<open>CalledProcessError\<close>.
\<close>

definition subprocess_run :: "'p env \<Rightarrow> string list \<Rightarrow> 'p world \<Rightarrow> (error + unit) \<times> 'p world" where
  "subprocess_run E cmd w =
     (case engine E cmd (fs w) of
        (rc, out) \<Rightarrow>
          (let fs1 = (case (output_file_arg cmd, out) of
                        (Some p, Some f) \<Rightarrow>
                          (case locate E w p of
                             Inl e \<Rightarrow> fs w
                           | Inr loc \<Rightarrow>
                               if fs w loc = Some Directory then fs w
                               else (fs w)(loc \<mapsto> Regular f))
                      | _ \<Rightarrow> fs w);
               w1 = w\<lparr>fs := fs1, trace := trace w @ [Run cmd]\<rparr>
           in if rc = 0 then (Inr (), w1) else (Inl (CalledProcessError rc), w1)))"

section \<open>Compressor\<close>

text \<open>\<^verbatim>\<open>_run_ghostscript(self, input_path, output_path, dpi, quality)\<close>.\<close>

definition gs_cmd :: "path \<Rightarrow> path \<Rightarrow> int \<Rightarrow> int \<Rightarrow> string list" where
  "gs_cmd input_path output_path d q =
     [''gs'',
      ''-sFONTPATH=/tmp'',
      ''-sDEVICE=pdfwrite'',
      ''-dCompatibilityLevel=1.4'',
      ''-dPDFSETTINGS=/'' @ get_gs_preset d q,
      ''-dNOPAUSE'',
      ''-dQUIET'',
      ''-dBATCH'',
      ''-sOutputFile='' @ output_path,
      input_path]"

definition run_ghostscript ::
  "'p env \<Rightarrow> path \<Rightarrow> path \<Rightarrow> int \<Rightarrow> int \<Rightarrow> 'p world \<Rightarrow> (error + unit) \<times> 'p world" where
  "run_ghostscript E input_path output_path d q w =
     (case shutil_which E ''gs'' w of
        (found, w1) \<Rightarrow>
          if \<not> found then (Inl GsNotFound, w1)
          else (case subprocess_run E (gs_cmd input_path output_path d q) w1 of
                  (Inl (CalledProcessError rc), w2) \<Rightarrow> (Inl (GsFailed rc), w2)
                | (r, w2) \<Rightarrow> (r, w2)))"

text \<open>
  The body of the \<^verbatim>\<open>try\<close> block of \<^verbatim>\<open>compress_pdf\<close>: read the input, add every page to
  a new writer, write it to \<^verbatim>\<open>temp.pdf\<close> in the scratch directory, run the engine on it.
\<close>

definition add_page :: "'p list \<Rightarrow> 'p \<Rightarrow> 'p list" where
  "add_page writer page = writer @ [page]"

definition compress_body ::
  "'p env \<Rightarrow> path \<Rightarrow> path \<Rightarrow> settings \<Rightarrow> path \<Rightarrow> 'p world \<Rightarrow> (error + unit) \<times> 'p world" where
  "compress_body E input_path output_path st temp_dir w =
     (case open_rb E input_path w of
        (Inl e, w1) \<Rightarrow> (Inl e, w1)
      | (Inr f, w1) \<Rightarrow>
          (case pdf_reader input_path f of
             Inl e \<Rightarrow> (Inl e, w1)
           | Inr pdf_pages \<Rightarrow>
               (let writer = foldl add_page [] pdf_pages;
                    temp_pdf = path_join temp_dir ''temp.pdf''
                in case write_pdf E temp_pdf writer w1 of
                     (Inl e, w2) \<Rightarrow> (Inl e, w2)
                   | (Inr u, w2) \<Rightarrow>
                       run_ghostscript E temp_pdf output_path (dpi st) (quality st) w2)))"

text \<open>
  \<^verbatim>\<open>compress_pdf(self, input_path, output_path, quality)\<close>. The \<^verbatim>\<open>finally\<close> clause runs
  \<^verbatim>\<open>rmtree\<close> whatever the body did; when \<^verbatim>\<open>rmtree\<close> itself raises, its exception is the
  one that leaves the function.
\<close>

definition compress_pdf ::
  "'p env \<Rightarrow> path \<Rightarrow> path \<Rightarrow> string \<Rightarrow> 'p world \<Rightarrow> (error + unit) \<times> 'p world" where
  "compress_pdf E input_path output_path qname w =
     (case quality_settings qname of
        None \<Rightarrow> (Inl InvalidQuality, w)
      | Some st \<Rightarrow>
          (case mkdtemp E w of
             (Inl e, w1) \<Rightarrow> (Inl e, w1)
           | (Inr temp_dir, w1) \<Rightarrow>
               (case compress_body E input_path output_path st temp_dir w1 of
                  (r, w2) \<Rightarrow>
                    (case rmtree E temp_dir w2 of
                       (Inl e, w3) \<Rightarrow> (Inl e, w3)
                     | (Inr u, w3) \<Rightarrow> (r, w3)))))"

section \<open>Splitter\<close>

text \<open>
  \<^verbatim>\<open>str(n)\<close> for a non-negative integer: its decimal digits, and the name of part \<open>n\<close>,
  \<^verbatim>\<open>f"{output_prefix}_part{current_part}.pdf"\<close>.
\<close>

definition digit_char :: "nat \<Rightarrow> char" where
  "digit_char d = ''0123456789'' ! d"

fun str_nat :: "nat \<Rightarrow> string" where
  "str_nat n = (if n < 10 then [digit_char n] else str_nat (n div 10) @ [digit_char (n mod 10)])"

declare str_nat.simps [simp del]

definition part_path :: "path \<Rightarrow> nat \<Rightarrow> path" where
  "part_path output_prefix n = output_prefix @ ''_part'' @ str_nat n @ ''.pdf''"

text \<open>
  Lines 74 to 79: a single-page writer is written to a \<^verbatim>\<open>NamedTemporaryFile\<close>, a new file
  under the first candidate name that does not exist yet; \<^verbatim>\<open>os.path.getsize\<close> reads its
  size, and the file is deleted on leaving the \<^verbatim>\<open>with\<close> block.
\<close>

definition estimate_page :: "'p env \<Rightarrow> 'p \<Rightarrow> 'p world \<Rightarrow> (error + nat) \<times> 'p world" where
  "estimate_page E page w =
     (case find (\<lambda>t. file_at E w t = None) (tmp_names E) of
        None \<Rightarrow> (Inl FileExistsError, w)
      | Some t \<Rightarrow>
          (case locate E w t of
             Inl e \<Rightarrow> (Inl e, w)
           | Inr loc \<Rightarrow>
               (let temp_writer = add_page [] page;
                    w1 = w\<lparr>fs := (fs w)(loc \<mapsto> Regular (written E temp_writer)),
                           trace := trace w @ [TempFile t]\<rparr>
                in case getsize E t w1 of
                     (r, w2) \<Rightarrow> (r, w2\<lparr>fs := (fs w2)(loc := None)\<rparr>))))"

text \<open>The local variables of the loop of \<^verbatim>\<open>split_pdf\<close>.\<close>

record 'p split_state =
  parts :: "path list"
  current_part :: nat
  current_writer :: "'p list"
  current_size_estimate :: nat

text \<open>
  Saving the current part (lines 85 to 88, and again 100 to 103): write the writer to the
  part's path and append the path to \<^verbatim>\<open>parts\<close>.
\<close>

definition save_part ::
  "'p env \<Rightarrow> path \<Rightarrow> 'p split_state \<Rightarrow> 'p world \<Rightarrow> (error + 'p split_state) \<times> 'p world" where
  "save_part E output_prefix st w =
     (let this_path = part_path output_prefix (current_part st)
      in case write_pdf E this_path (current_writer st) w of
           (Inl e, w1) \<Rightarrow> (Inl e, w1)
         | (Inr u, w1) \<Rightarrow> (Inr (st\<lparr>parts := parts st @ [this_path]\<rparr>), w1))"

text \<open>Starting a new part (lines 91 to 93).\<close>

definition start_new_part :: "'p split_state \<Rightarrow> 'p split_state" where
  "start_new_part st =
     st\<lparr>current_part := current_part st + 1, current_writer := [], current_size_estimate := 0\<rparr>"

text \<open>The \<^verbatim>\<open>for page in pdf.pages\<close> loop (lines 72 to 96).\<close>

fun split_loop ::
  "'p env \<Rightarrow> int \<Rightarrow> path \<Rightarrow> 'p list \<Rightarrow> 'p split_state \<Rightarrow> 'p world
     \<Rightarrow> (error + 'p split_state) \<times> 'p world" where
  "split_loop E max_size_bytes output_prefix [] st w = (Inr st, w)"
| "split_loop E max_size_bytes output_prefix (page # rest) st w =
     (case estimate_page E page w of
        (Inl e, w1) \<Rightarrow> (Inl e, w1)
      | (Inr temp_size, w1) \<Rightarrow>
          (case (if int (current_size_estimate st + temp_size) > max_size_bytes
                    \<and> length (current_writer st) > 0
                 then (case save_part E output_prefix st w1 of
                         (Inl e, w2) \<Rightarrow> (Inl e, w2)
                       | (Inr st1, w2) \<Rightarrow> (Inr (start_new_part st1), w2))
                 else (Inr st, w1)) of
             (Inl e, w2) \<Rightarrow> (Inl e, w2)
           | (Inr st2, w2) \<Rightarrow>
               split_loop E max_size_bytes output_prefix rest
                 (st2\<lparr>current_writer := add_page (current_writer st2) page,
                      current_size_estimate := current_size_estimate st2 + temp_size\<rparr>) w2))"

text \<open>
  Lines 56 to 58: a prefix that was not given is the input path without its extension.
\<close>

definition resolve_prefix :: "'p env \<Rightarrow> path \<Rightarrow> path option \<Rightarrow> path" where
  "resolve_prefix E input_path output_prefix_opt =
     (case output_prefix_opt of
        None \<Rightarrow>
          (let base_name = fst (splitext E (basename E input_path))
           in path_join (dirname E input_path) base_name)
      | Some p \<Rightarrow> p)"

text \<open>
  \<^verbatim>\<open>split_pdf(self, input_path, max_size_mb, output_prefix)\<close>; a missing prefix is \<open>None\<close>.
  The message printed on the short-circuit path goes to standard output, which is not
  modelled.
\<close>

definition split_pdf ::
  "'p env \<Rightarrow> path \<Rightarrow> int \<Rightarrow> path option \<Rightarrow> 'p world \<Rightarrow> (error + path list) \<times> 'p world" where
  "split_pdf E input_path max_size_mb output_prefix_opt w =
     (let max_size_bytes = max_size_mb * 1024 * 1024;
          output_prefix = resolve_prefix E input_path output_prefix_opt
      in case open_rb E input_path w of
           (Inl e, w1) \<Rightarrow> (Inl e, w1)
         | (Inr f, w1) \<Rightarrow>
             (case getsize E input_path w1 of
                (Inl e, w2) \<Rightarrow> (Inl e, w2)
              | (Inr input_size, w2) \<Rightarrow>
                  if int input_size \<le> max_size_bytes then (Inr [input_path], w2)
                  else
                    (case pdf_reader input_path f of
                       Inl e \<Rightarrow> (Inl e, w2)
                     | Inr pdf_pages \<Rightarrow>
                         (case split_loop E max_size_bytes output_prefix pdf_pages
                                 \<lparr>parts = [], current_part = 1, current_writer = [],
                                  current_size_estimate = 0\<rparr> w2 of
                            (Inl e, w3) \<Rightarrow> (Inl e, w3)
                          | (Inr st, w3) \<Rightarrow>
                              if length (current_writer st) > 0
                              then (case save_part E output_prefix st w3 of
                                      (Inl e, w4) \<Rightarrow> (Inl e, w4)
                                    | (Inr st1, w4) \<Rightarrow> (Inr (parts st1), w4))
                              else (Inr (parts st), w3)))))"

section \<open>Command line front-end\<close>

text \<open>
  The namespace \<^verbatim>\<open>parse_args\<close> returns. An option that was not given is \<open>None\<close>;
  \<^verbatim>\<open>--split\<close> has \<^verbatim>\<open>type=int\<close>, so any integer can arrive.
\<close>

record args =
  args_input :: path
  args_output :: "path option"
  args_quality :: string
  args_split :: "int option"
  args_prefix :: "path option"
  args_verbose :: bool

text \<open>
  The lines \<^verbatim>\<open>main\<close> prints to the error stream. Standard output is not modelled: its
  lines are progress messages with floating-point sizes, and no branch depends on them.
\<close>

datatype stderr_line = InputNotFound path | OutputRequired | ErrorLine error

text \<open>
  Verbose split mode reads the size of each part (line 174); the first failure stops
  the loop.
\<close>

fun part_sizes :: "'p env \<Rightarrow> path list \<Rightarrow> 'p world \<Rightarrow> (error + unit) \<times> 'p world" where
  "part_sizes E [] w = (Inr (), w)"
| "part_sizes E (part # rest) w =
     (case getsize E part w of
        (Inl e, w1) \<Rightarrow> (Inl e, w1)
      | (Inr size_mb, w1) \<Rightarrow> part_sizes E rest w1)"

text \<open>
  The branch \<^verbatim>\<open>if args.split:\<close> (lines 166 to 175) under the handler
  \<^verbatim>\<open>except Exception\<close>: an error is printed and the exit status is 1.
\<close>

definition split_mode ::
  "'p env \<Rightarrow> args \<Rightarrow> int \<Rightarrow> 'p world \<Rightarrow> int \<times> stderr_line list \<times> 'p world" where
  "split_mode E a n w =
     (case split_pdf E (args_input a) n (args_prefix a) w of
        (Inl e, w1) \<Rightarrow> (1, [ErrorLine e], w1)
      | (Inr ps, w1) \<Rightarrow>
          if args_verbose a
          then (case part_sizes E ps w1 of
                  (Inl e, w2) \<Rightarrow> (1, [ErrorLine e], w2)
                | (Inr u, w2) \<Rightarrow> (0, [], w2))
          else (0, [], w1))"

text \<open>
  The \<^verbatim>\<open>else\<close> branch (lines 177 to 191). \<^verbatim>\<open>if not args.output\<close> is true for a missing
  and for an empty path; \<^verbatim>\<open>sys.exit(1)\<close> raises \<^verbatim>\<open>SystemExit\<close>, which the handler does
  not catch. In verbose mode the sizes are read before and after, and the reduction
  divides by the original size.
\<close>

definition compress_mode ::
  "'p env \<Rightarrow> args \<Rightarrow> 'p world \<Rightarrow> int \<times> stderr_line list \<times> 'p world" where
  "compress_mode E a w =
     (case args_output a of
        None \<Rightarrow> (1, [OutputRequired], w)
      | Some out \<Rightarrow>
          if out = [] then (1, [OutputRequired], w)
          else if \<not> args_verbose a
          then (case compress_pdf E (args_input a) out (args_quality a) w of
                  (Inl e, w1) \<Rightarrow> (1, [ErrorLine e], w1)
                | (Inr u, w1) \<Rightarrow> (0, [], w1))
          else (case getsize E (args_input a) w of
                  (Inl e, w1) \<Rightarrow> (1, [ErrorLine e], w1)
                | (Inr original_size, w1) \<Rightarrow>
                    (case compress_pdf E (args_input a) out (args_quality a) w1 of
                       (Inl e, w2) \<Rightarrow> (1, [ErrorLine e], w2)
                     | (Inr u, w2) \<Rightarrow>
                         (case getsize E out w2 of
                            (Inl e, w3) \<Rightarrow> (1, [ErrorLine e], w3)
                          | (Inr new_size, w3) \<Rightarrow>
                              if original_size = 0 then (1, [ErrorLine ZeroDivisionError], w3)
                              else (0, [], w3)))))"

text \<open>
  \<^verbatim>\<open>main\<close> after argument parsing: exit status, error stream, final world. The condition
  \<^verbatim>\<open>if args.split:\<close> is Python truth of an optional integer: false for \<open>None\<close> and for 0.
\<close>

definition main :: "'p env \<Rightarrow> args \<Rightarrow> 'p world \<Rightarrow> int \<times> stderr_line list \<times> 'p world" where
  "main E a w =
     (case path_exists E (args_input a) w of
        (found, w0) \<Rightarrow>
          if \<not> found then (1, [InputNotFound (args_input a)], w0)
          else (case args_split a of
                  None \<Rightarrow> compress_mode E a w0
                | Some n \<Rightarrow> if n \<noteq> 0 then split_mode E a n w0 else compress_mode E a w0))"

section \<open>Notions used in the statements\<close>

text \<open>
  The estimate of a page is the size of the single-page document written for it, and the
  accumulated estimate of a part is the sum over its pages.
\<close>

definition estimate :: "'p env \<Rightarrow> 'p list \<Rightarrow> nat" where
  "estimate E ps = sum_list (map (\<lambda>page. doc_size E [page]) ps)"

text \<open>The pages of the PDF a path names; no pages where there is no PDF.\<close>

definition read_pages :: "'p env \<Rightarrow> 'p world \<Rightarrow> path \<Rightarrow> 'p list" where
  "read_pages E w p =
     (case file_at E w p of
        Some (Regular f) \<Rightarrow> (case pages f of Some ps \<Rightarrow> ps | None \<Rightarrow> [])
      | _ \<Rightarrow> [])"

text \<open>
  The parts sealed so far: part \<open>i + 1\<close> is on disk as the \<open>i\<close>-th chunk, no chunk is
  empty, and a chunk of two or more pages is within the budget.
\<close>

definition sealed ::
  "'p env \<Rightarrow> int \<Rightarrow> path \<Rightarrow> 'p list list \<Rightarrow> 'p world \<Rightarrow> bool" where
  "sealed E m pre chunks w \<longleftrightarrow>
     (\<forall>i<length chunks.
        file_at E w (part_path pre (Suc i)) = Some (Regular (written E (chunks ! i)))) \<and>
     (\<forall>c\<in>set chunks. c \<noteq> [] \<and> (2 \<le> length c \<longrightarrow> int (estimate E c) \<le> m))"

text \<open>The invariant of the loop of \<^verbatim>\<open>split_pdf\<close>.\<close>

definition split_inv ::
  "'p env \<Rightarrow> int \<Rightarrow> path \<Rightarrow> 'p list list \<Rightarrow> 'p split_state \<Rightarrow> 'p world \<Rightarrow> bool" where
  "split_inv E m pre chunks st w \<longleftrightarrow>
     sealed E m pre chunks w \<and>
     current_part st = Suc (length chunks) \<and>
     parts st = map (part_path pre) [1..<current_part st] \<and>
     current_size_estimate st = estimate E (current_writer st) \<and>
     (2 \<le> length (current_writer st) \<longrightarrow> int (estimate E (current_writer st)) \<le> m)"

section \<open>A concrete platform and world\<close>

text \<open>
  The process runs in \<^verbatim>\<open>/work\<close>. A page is a number, its size in MiB when written alone.
  The engine halves the size of the file named last on its command line. The \<^verbatim>\<open>os.path\<close>
  functions are those for a path without a directory part.
\<close>

definition example_env :: "nat env" where
  "example_env =
     \<lparr>cwd = [''work''],
      doc_size = (\<lambda>ps. 1048576 * sum_list ps),
      tmp_names = [''/tmp/tmpa'', ''/tmp/tmpb''],
      writable = (\<lambda>p. True),
      which = (\<lambda>name. if name = ''gs'' then Some ''/usr/bin/gs'' else None),
      engine = (\<lambda>cmd files.
                  case files (foldl enter (start_of [''work''] (last cmd)) (components (last cmd))) of
                    Some (Regular f) \<Rightarrow> (0, Some \<lparr>nbytes = nbytes f div 2, pages = pages f\<rparr>)
                  | _ \<Rightarrow> (1, None)),
      dir_size = 4096,
      basename = (\<lambda>p. p),
      dirname = (\<lambda>p. []),
      splitext = (\<lambda>p. (takeWhile (\<lambda>c. c \<noteq> CHR ''.'') p, dropWhile (\<lambda>c. c \<noteq> CHR ''.'') p))\<rparr>"

definition example_file :: "nat filedata" where
  "example_file = \<lparr>nbytes = 5242880, pages = Some [1, 1, 3]\<rparr>"

text \<open>
  The world holds the root, \<^verbatim>\<open>/tmp\<close>, \<^verbatim>\<open>/work\<close> and the file \<^verbatim>\<open>/work/in.pdf\<close>.
\<close>

definition example_world :: "nat world" where
  "example_world =
     \<lparr>fs = [Nil \<mapsto> Directory, [''tmp''] \<mapsto> Directory, [''work''] \<mapsto> Directory,
            [''work'', ''in.pdf''] \<mapsto> Regular example_file],
      trace = []\<rparr>"

subsection \<open>Notions for the frame and trace statements\<close>


text \<open>
  The events a call added to the trace.
\<close>

definition new_events :: "'p world \<Rightarrow> 'p world \<Rightarrow> event list" where
  "new_events w w' = drop (length (trace w)) (trace w')"

text \<open>
  Two worlds have the same directories. Reading a path depends on the directories only.
\<close>

definition same_dirs :: "'p world \<Rightarrow> 'p world \<Rightarrow> bool" where
  "same_dirs w w' \<longleftrightarrow> (\<forall>k. fs w' k = Some Directory \<longleftrightarrow> fs w k = Some Directory)"


text \<open>
  The file system is a tree: nothing exists under a location that holds nothing, so a
  directory \<^verbatim>\<open>mkdtemp\<close> creates is empty.
\<close>

definition scratch_fresh :: "'p env \<Rightarrow> 'p world \<Rightarrow> bool" where
  "scratch_fresh E w \<longleftrightarrow>
     (\<forall>d\<in>set (tmp_names E). fs w (resolve E d) = None \<longrightarrow>
        (\<forall>k. prefix (resolve E d) k \<longrightarrow> fs w k = None))"

text \<open>
  No engine run between two worlds: the events added hold no \<open>Run\<close>.
\<close>

definition quiet :: "'p world \<Rightarrow> 'p world \<Rightarrow> bool" where
  "quiet w w' \<longleftrightarrow> (\<exists>evs. trace w' = trace w @ evs \<and> (\<forall>cmd. Run cmd \<notin> set evs))"

subsection \<open>Further concrete inputs\<close>

text \<open>
  The concrete platform without the engine on the search path, and a command line with
  \<^verbatim>\<open>-s 0\<close> and no \<^verbatim>\<open>-o\<close>.
\<close>

definition example_env_no_gs :: "nat env" where
  "example_env_no_gs = example_env\<lparr>which := (\<lambda>name. None)\<rparr>"

definition example_args :: args where
  "example_args =
     \<lparr>args_input = ''in.pdf'', args_output = None, args_quality = ''medium'',
      args_split = Some 0, args_prefix = None, args_verbose = False\<rparr>"

section \<open>The preset mapping\<close>

text \<open>
  C4. For every integer dpi and every quality value the preset is a step function of dpi
  alone: at most 72 gives screen, above 72 and at most 150 gives ebook, above 150 and at
  most 300 gives printer, above 300 gives prepress; the boundary inputs 73, 151 and 301
  give ebook, printer and prepress.
\<close>

theorem get_gs_preset_step:
  "(d \<le> 72 \<longrightarrow> get_gs_preset d q = ''screen'') \<and>
   (72 < d \<and> d \<le> 150 \<longrightarrow> get_gs_preset d q = ''ebook'') \<and>
   (150 < d \<and> d \<le> 300 \<longrightarrow> get_gs_preset d q = ''printer'') \<and>
   (300 < d \<longrightarrow> get_gs_preset d q = ''prepress'') \<and>
   get_gs_preset 73 q = ''ebook'' \<and>
   get_gs_preset 151 q = ''printer'' \<and>
   get_gs_preset 301 q = ''prepress''"
  by (simp add: get_gs_preset_def)

theorem get_gs_preset_step_witness:
  "(72::int) < 150 \<and> (150::int) \<le> 150 \<and> get_gs_preset 150 (60::int) = ''ebook'' \<and>
   (60::int) \<le> 72 \<and> get_gs_preset 60 (30::int) = ''screen'' \<and>
   (150::int) < 300 \<and> (300::int) \<le> 300 \<and> get_gs_preset 300 (90::int) = ''printer'' \<and>
   (300::int) < 1200 \<and> get_gs_preset 1200 (90::int) = ''prepress''"
proof -
  have e: "get_gs_preset 150 (60::int) = ''ebook''"
    using get_gs_preset_step [of 150 "60::int"] by (elim conjE) simp
  have s: "get_gs_preset 60 (30::int) = ''screen''"
    using get_gs_preset_step [of 60 "30::int"] by (elim conjE) simp
  have p: "get_gs_preset 300 (90::int) = ''printer''"
    using get_gs_preset_step [of 300 "90::int"] by (elim conjE) simp
  have r: "get_gs_preset 1200 (90::int) = ''prepress''"
    using get_gs_preset_step [of 1200 "90::int"] by (elim conjE) simp
  show ?thesis using e s p r by simp
qed

text \<open>
  C9. For a fixed dpi, any two quality percentages select the same preset: the quality
  percentage is an input of the mapping and never influences its result.
\<close>

theorem get_gs_preset_ignores_quality:
  "get_gs_preset d q1 = get_gs_preset d q2"
  by (simp add: get_gs_preset_def)

section \<open>Paths and the files they name\<close>

lemma str_nat_nonempty: "str_nat n \<noteq> []"
  by (subst str_nat.simps) simp

lemma digit_char_inj: "a < 10 \<Longrightarrow> b < 10 \<Longrightarrow> digit_char a = digit_char b \<Longrightarrow> a = b"
proof -
  assume a: "a < 10" and b: "b < 10" and e: "digit_char a = digit_char b"
  have d: "distinct ''0123456789''" by simp
  have l: "length ''0123456789'' = 10" by simp
  from e have "''0123456789'' ! a = ''0123456789'' ! b" by (simp add: digit_char_def)
  with d a b l show "a = b" by (metis nth_eq_iff_index_eq)
qed

lemma str_nat_inj: "str_nat a = str_nat b \<Longrightarrow> a = b"
proof (induction a arbitrary: b rule: str_nat.induct)
  case (1 n)
  show ?case
  proof (cases "n < 10")
    case True
    then have n: "str_nat n = [digit_char n]" by (subst str_nat.simps) simp
    show ?thesis
    proof (cases "b < 10")
      case True
      then have "str_nat b = [digit_char b]" by (subst str_nat.simps) simp
      with n "1.prems" have "digit_char n = digit_char b" by simp
      with \<open>n < 10\<close> True show ?thesis by (rule digit_char_inj)
    next
      case False
      then have "str_nat b = str_nat (b div 10) @ [digit_char (b mod 10)]"
        by (subst str_nat.simps) simp
      with n "1.prems" have "str_nat (b div 10) = []" by simp
      then show ?thesis by (simp add: str_nat_nonempty)
    qed
  next
    case False
    then have n: "str_nat n = str_nat (n div 10) @ [digit_char (n mod 10)]"
      by (subst str_nat.simps) simp
    show ?thesis
    proof (cases "b < 10")
      case True
      then have "str_nat b = [digit_char b]" by (subst str_nat.simps) simp
      with n "1.prems" have "str_nat (n div 10) = []" by simp
      then show ?thesis by (simp add: str_nat_nonempty)
    next
      case b: False
      then have "str_nat b = str_nat (b div 10) @ [digit_char (b mod 10)]"
        by (subst str_nat.simps) simp
      with n "1.prems" have s: "str_nat (n div 10) = str_nat (b div 10)"
        and d: "digit_char (n mod 10) = digit_char (b mod 10)" by simp_all
      from "1.IH" [OF False s] have q: "n div 10 = b div 10" .
      have "n mod 10 = b mod 10" by (rule digit_char_inj [OF _ _ d]) simp_all
      with q show ?thesis by (metis div_mult_mod_eq)
    qed
  qed
qed

lemma last_noslash: "s \<noteq> [] \<Longrightarrow> CHR ''/'' \<notin> set s \<Longrightarrow> last s \<noteq> CHR ''/''"
  by (metis last_in_set)

lemma split_slash_nonempty: "split_slash p \<noteq> []"
  by (induction p) (auto split: list.splits)

lemma split_slash_append_slash:
  "split_slash (a @ CHR ''/'' # b) = split_slash a @ split_slash b"
  by (induction a) (auto split: list.splits simp: split_slash_nonempty)

lemma split_slash_noslash: "CHR ''/'' \<notin> set s \<Longrightarrow> split_slash s = [s]"
  by (induction s) auto

lemma split_slash_append_noslash:
  "CHR ''/'' \<notin> set s \<Longrightarrow>
   split_slash (a @ s) = butlast (split_slash a) @ [last (split_slash a) @ s]"
proof (induction a)
  case Nil
  then show ?case by (simp add: split_slash_noslash)
next
  case (Cons c a)
  then show ?case
    by (cases "split_slash a"; cases "split_slash (a @ s)")
       (auto simp: split_slash_nonempty split: list.splits if_splits)
qed

lemma components_suffix:
  assumes "s \<noteq> []" "CHR ''/'' \<notin> set s"
  shows "components (a @ s) =
           filter (\<lambda>c. c \<noteq> []) (butlast (split_slash a)) @ [last (split_slash a) @ s]"
proof -
  from assms have "last (a @ s) \<noteq> CHR ''/''" by (simp add: last_noslash)
  with assms show ?thesis by (simp add: components_def split_slash_append_noslash)
qed

lemma start_of_suffix: "CHR ''/'' \<notin> set s \<Longrightarrow> start_of wd (a @ s) = start_of wd a"
  by (cases a; cases s) (auto simp: start_of_def)

lemma resolve_suffix:
  assumes "s \<noteq> []" "CHR ''/'' \<notin> set s"
    and "last (split_slash a) @ s \<noteq> ''.''" "last (split_slash a) @ s \<noteq> ''..''"
  shows "resolve E (a @ s) =
           foldl enter (start_of (cwd E) a) (filter (\<lambda>c. c \<noteq> []) (butlast (split_slash a)))
             @ [last (split_slash a) @ s]"
  using assms by (simp add: resolve_def components_suffix start_of_suffix enter_def)

lemma digit_char_noslash: "d < 10 \<Longrightarrow> digit_char d \<noteq> CHR ''/''"
proof -
  assume "d < 10"
  then have "digit_char d \<in> set ''0123456789''"
    unfolding digit_char_def by (intro nth_mem) simp
  then show ?thesis by auto
qed

lemma str_nat_noslash: "CHR ''/'' \<notin> set (str_nat n)"
proof (induction n rule: str_nat.induct)
  case (1 n)
  show ?case
  proof (cases "n < 10")
    case True
    then have "str_nat n = [digit_char n]" by (subst str_nat.simps) simp
    with True show ?thesis using digit_char_noslash [of n] by auto
  next
    case False
    then have "str_nat n = str_nat (n div 10) @ [digit_char (n mod 10)]"
      by (subst str_nat.simps) simp
    with 1 False show ?thesis using digit_char_noslash [of "n mod 10"] by auto
  qed
qed

lemma resolve_part_path:
  "resolve E (part_path pre n) =
     foldl enter (start_of (cwd E) pre) (filter (\<lambda>c. c \<noteq> []) (butlast (split_slash pre)))
       @ [last (split_slash pre) @ ''_part'' @ str_nat n @ ''.pdf'']"
proof -
  let ?s = "''_part'' @ str_nat n @ ''.pdf''"
  have a: "?s \<noteq> []" by simp
  have b: "CHR ''/'' \<notin> set ?s" using str_nat_noslash [of n] by simp
  have "length (last (split_slash pre) @ ?s) > 2" by simp
  then have c: "last (split_slash pre) @ ?s \<noteq> ''.''" and d: "last (split_slash pre) @ ?s \<noteq> ''..''"
    by auto
  from resolve_suffix [OF a b c d, of E] show ?thesis by (simp add: part_path_def)
qed

lemma resolve_part_path_inj:
  "resolve E (part_path pre a) = resolve E (part_path pre b) \<longleftrightarrow> a = b"
  by (auto simp: resolve_part_path dest: str_nat_inj)


lemma enter_name: "c \<noteq> ''.'' \<Longrightarrow> c \<noteq> ''..'' \<Longrightarrow> enter loc c = loc @ [c]"
  by (simp add: enter_def)

lemma components_dir_prefix:
  assumes "s \<noteq> []" "CHR ''/'' \<notin> set s"
  shows "components (dir_prefix d @ s) = filter (\<lambda>c. c \<noteq> []) (split_slash d) @ [s]"
proof (cases "d = [] \<or> last d = CHR ''/''")
  case False
  then have "dir_prefix d @ s = d @ CHR ''/'' # s" by (simp add: dir_prefix_def)
  moreover from assms have "last (d @ CHR ''/'' # s) \<noteq> CHR ''/''" by (simp add: last_noslash)
  ultimately show ?thesis using assms
    by (simp add: components_def split_slash_append_slash split_slash_noslash)
next
  case True
  show ?thesis
  proof (cases "d = []")
    case True
    moreover from assms have "last s \<noteq> CHR ''/''" by (rule last_noslash)
    ultimately show ?thesis using assms
      by (simp add: dir_prefix_def components_def split_slash_noslash)
  next
    case False
    with True obtain d' where d: "d = d' @ ''/''" by (metis append_butlast_last_id)
    then have "dir_prefix d @ s = d' @ CHR ''/'' # s" by (simp add: dir_prefix_def)
    moreover from assms have "last (d' @ CHR ''/'' # s) \<noteq> CHR ''/''" by (simp add: last_noslash)
    moreover have "split_slash d = split_slash d' @ [Nil]"
      using split_slash_append_slash [of d' "[]"] d by simp
    ultimately show ?thesis using assms
      by (simp add: components_def split_slash_append_slash split_slash_noslash)
  qed
qed

lemma components_core:
  "components d = filter (\<lambda>c. c \<noteq> []) (split_slash d) @
      (if d \<noteq> [] \<and> last d = CHR ''/'' then [''.''] else [])"
  by (simp add: components_def)

lemma start_of_dir_prefix:
  "CHR ''/'' \<notin> set s \<Longrightarrow> start_of wd (dir_prefix d @ s) = start_of wd d"
  by (cases d; cases s) (auto simp: start_of_def dir_prefix_def)



lemma walk_Inr: "walk files p loc cs = Inr l \<Longrightarrow> l = foldl enter loc cs"
  by (induction cs arbitrary: loc) (auto split: option.splits node.splits)

lemma locate_resolve: "locate E w p = Inr l \<Longrightarrow> l = resolve E p"
  by (auto simp: locate_def resolve_def split: if_splits dest: walk_Inr)

lemma walk_same_dirs:
  "(\<forall>k. files' k = Some Directory \<longleftrightarrow> files k = Some Directory) \<Longrightarrow>
   (walk files' p loc cs = Inr l) = (walk files p loc cs = Inr l)"
proof (induction cs arbitrary: loc)
  case Nil
  show ?case by simp
next
  case (Cons c cs)
  from Cons.prems have d: "files' loc = Some Directory \<longleftrightarrow> files loc = Some Directory" by simp
  show ?case
  proof (cases "files loc = Some Directory")
    case True
    with d Cons.IH [OF Cons.prems] show ?thesis by simp
  next
    case False
    with d have "files' loc \<noteq> Some Directory" by simp
    with False show ?thesis by (auto split: option.splits node.splits)
  qed
qed

lemma locate_same_dirs:
  "same_dirs w w' \<Longrightarrow> (locate E w' p = Inr l) = (locate E w p = Inr l)"
  using walk_same_dirs [of "fs w'" "fs w" p "start_of (cwd E) p" "components p" l]
  by (simp add: locate_def same_dirs_def)

lemma walk_mono:
  "(\<forall>k. files k = Some Directory \<longrightarrow> files' k = Some Directory) \<Longrightarrow>
   walk files p loc cs = Inr l \<Longrightarrow> walk files' p loc cs = Inr l"
  by (induction cs arbitrary: loc) (auto split: option.splits node.splits)

lemma locate_mono:
  "(\<forall>k. fs w k = Some Directory \<longrightarrow> fs w' k = Some Directory) \<Longrightarrow>
   locate E w p = Inr l \<Longrightarrow> locate E w' p = Inr l"
  using walk_mono [of "fs w" "fs w'" p "start_of (cwd E) p" "components p" l]
  by (auto simp: locate_def split: if_splits)

lemma file_at_same_dirs:
  assumes "same_dirs w w'" and "fs w' (resolve E p) = fs w (resolve E p)"
  shows "file_at E w' p = file_at E w p"
proof (cases "locate E w p")
  case (Inr l)
  with locate_same_dirs [OF assms(1), of E p l] have "locate E w' p = Inr l" by simp
  with Inr assms(2) locate_resolve [OF Inr] show ?thesis by (simp add: file_at_def)
next
  case (Inl e)
  have "\<exists>e'. locate E w' p = Inl e'"
  proof (cases "locate E w' p")
    case (Inr l)
    with locate_same_dirs [OF assms(1), of E p l] Inl show ?thesis by simp
  qed simp
  with Inl show ?thesis by (auto simp: file_at_def)
qed

lemma same_dirs_refl: "same_dirs w w"
  by (simp add: same_dirs_def)

lemma same_dirs_trans: "same_dirs w w1 \<Longrightarrow> same_dirs w1 w2 \<Longrightarrow> same_dirs w w2"
  by (simp add: same_dirs_def)

lemma same_dirs_fs: "fs w' = fs w \<Longrightarrow> same_dirs w w'"
  by (simp add: same_dirs_def)

lemma same_dirs_write:
  "fs w l \<noteq> Some Directory \<Longrightarrow> fs w' = (fs w)(l \<mapsto> Regular x) \<Longrightarrow> same_dirs w w'"
  by (simp add: same_dirs_def)

lemma file_at_Some: "file_at E w p = Some n \<Longrightarrow> locate E w p = Inr (resolve E p) \<and> fs w (resolve E p) = Some n"
  by (auto simp: file_at_def split: sum.splits dest: locate_resolve)

lemma file_at_located: "locate E w p = Inr l \<Longrightarrow> file_at E w p = fs w l"
  by (simp add: file_at_def)

section \<open>Splitter: order, completeness and numbering\<close>

lemmas model_defs = split_pdf_def resolve_prefix_def open_rb_def getsize_def pdf_reader_def
  estimate_page_def save_part_def start_new_part_def write_pdf_def written_def add_page_def
  part_path_def path_join_def dir_prefix_def file_at_def locate_def components_def
  start_of_def enter_def

lemma locate_fs_cong: "fs w' = fs w \<Longrightarrow> locate E w' p = locate E w p"
  by (simp add: locate_def)

lemma file_at_fs_cong: "fs w' = fs w \<Longrightarrow> file_at E w' p = file_at E w p"
  using locate_fs_cong [of w' w E p] by (simp add: file_at_def split: sum.splits)

lemma locate_trace [simp]: "locate E (w\<lparr>trace := t\<rparr>) p = locate E w p"
  by (simp add: locate_def)

lemma file_at_trace [simp]: "file_at E (w\<lparr>trace := t\<rparr>) p = file_at E w p"
  by (rule file_at_fs_cong) simp

lemma getsize_fs: "fs (snd (getsize E p w)) = fs w"
  by (simp add: getsize_def Let_def split: sum.splits option.splits node.splits)

lemma find_fresh:
  "find (\<lambda>t. file_at E w t = None) names = Some t \<Longrightarrow> file_at E w t = None \<and> t \<in> set names"
  by (auto simp: find_Some_iff)

lemma open_rb_file:
  "file_at E w p = Some (Regular f) \<Longrightarrow>
   open_rb E p w = (Inr f, w\<lparr>trace := trace w @ [Open p RB]\<rparr>)"
  by (auto simp: open_rb_def file_at_def Let_def split: sum.splits)

lemma getsize_file:
  "file_at E w p = Some (Regular f) \<Longrightarrow>
   getsize E p w = (Inr (nbytes f), w\<lparr>trace := trace w @ [GetSize p]\<rparr>)"
  by (auto simp: getsize_def file_at_def Let_def split: sum.splits)

lemma part_path_inj: "part_path pre a = part_path pre b \<longleftrightarrow> a = b"
  by (auto simp: part_path_def dest: str_nat_inj)

lemma estimate_page_fs: "fs (snd (estimate_page E page w)) = fs w"
proof (cases "find (\<lambda>t. file_at E w t = None) (tmp_names E)")
  case None
  then show ?thesis by (simp add: estimate_page_def)
next
  case (Some t)
  show ?thesis
  proof (cases "locate E w t")
    case (Inl e)
    with Some show ?thesis by (simp add: estimate_page_def)
  next
    case (Inr loc)
    from find_fresh [OF Some] Inr have e: "fs w loc = None" by (simp add: file_at_def)
    let ?w1 = "w\<lparr>fs := (fs w)(loc \<mapsto> Regular (written E (add_page [] page))),
                  trace := trace w @ [TempFile t]\<rparr>"
    have "fs (snd (estimate_page E page w)) = (fs (snd (getsize E t ?w1)))(loc := None)"
      using Some Inr by (simp add: estimate_page_def Let_def split: prod.splits)
    also have "\<dots> = (fs w)(loc := None)" by (simp add: getsize_fs)
    also have "\<dots> = fs w" using e by (simp add: fun_upd_idem)
    finally show ?thesis .
  qed
qed

lemma estimate_page_Inr:
  "fst (estimate_page E page w) = Inr n \<Longrightarrow> n = doc_size E [page]"
  by (auto simp: estimate_page_def getsize_def Let_def written_def add_page_def
      split: option.splits sum.splits node.splits dest!: locate_resolve)

lemma estimate_append: "estimate E (xs @ ys) = estimate E xs + estimate E ys"
  by (simp add: estimate_def)

lemma sealed_fs_cong: "sealed E m pre chunks w \<Longrightarrow> fs w' = fs w \<Longrightarrow> sealed E m pre chunks w'"
  using file_at_fs_cong [of w' w E] by (simp add: sealed_def)

lemma sealed_snoc:
  assumes s: "sealed E m pre chunks w"
    and c: "c \<noteq> []" "2 \<le> length c \<longrightarrow> int (estimate E c) \<le> m"
    and l: "locate E w (part_path pre (Suc (length chunks))) = Inr loc"
    and nd: "fs w loc \<noteq> Some Directory"
    and f: "fs w' = (fs w)(loc \<mapsto> Regular (written E c))"
  shows "sealed E m pre (chunks @ [c]) w'"
  unfolding sealed_def
proof (intro conjI allI impI ballI)
  have sd: "same_dirs w w'" using nd f by (rule same_dirs_write)
  have loc: "loc = resolve E (part_path pre (Suc (length chunks)))" using l by (rule locate_resolve)
  fix i assume "i < length (chunks @ [c])"
  then consider "i < length chunks" | "i = length chunks" by fastforce
  then show "file_at E w' (part_path pre (Suc i)) = Some (Regular (written E ((chunks @ [c]) ! i)))"
  proof cases
    case 1
    then have "resolve E (part_path pre (Suc i)) \<noteq> loc"
      by (simp add: loc resolve_part_path_inj)
    with f have "fs w' (resolve E (part_path pre (Suc i))) = fs w (resolve E (part_path pre (Suc i)))"
      by simp
    with sd have "file_at E w' (part_path pre (Suc i)) = file_at E w (part_path pre (Suc i))"
      by (rule file_at_same_dirs)
    with 1 s show ?thesis by (simp add: sealed_def nth_append)
  next
    case 2
    from l locate_same_dirs [OF sd, of E "part_path pre (Suc (length chunks))" loc]
    have "locate E w' (part_path pre (Suc (length chunks))) = Inr loc" by simp
    with 2 f show ?thesis by (simp add: file_at_def)
  qed
next
  fix x assume "x \<in> set (chunks @ [c])"
  with s c show "x \<noteq> []" by (auto simp: sealed_def)
next
  fix x assume "x \<in> set (chunks @ [c])" "2 \<le> length x"
  with s c show "int (estimate E x) \<le> m" by (auto simp: sealed_def)
qed

lemma save_part_Inr:
  assumes "save_part E pre st w = (Inr st1, w1)"
  shows "st1 = st\<lparr>parts := parts st @ [part_path pre (current_part st)]\<rparr> \<and>
         (\<exists>loc. locate E w (part_path pre (current_part st)) = Inr loc \<and>
                fs w loc \<noteq> Some Directory \<and>
                fs w1 = (fs w)(loc \<mapsto> Regular (written E (current_writer st))))"
  using assms
  by (auto simp: save_part_def write_pdf_def Let_def split: if_splits sum.splits)

lemma split_loop_inv:
  "split_loop E m pre ps st w = (Inr st', w') \<Longrightarrow> split_inv E m pre chunks st w \<Longrightarrow>
   \<exists>chunks'. split_inv E m pre chunks' st' w' \<and>
     concat chunks' @ current_writer st' = concat chunks @ current_writer st @ ps"
proof (induction ps arbitrary: st w chunks)
  case Nil
  then show ?case by auto
next
  case (Cons page rest)
  obtain r w1 where ep: "estimate_page E page w = (r, w1)" by (cases "estimate_page E page w")
  with Cons.prems(1) obtain ts where r: "r = Inr ts" by (cases r) auto
  from ep r have ts: "ts = doc_size E [page]" using estimate_page_Inr [of E page w ts] by simp
  from ep have fs1: "fs w1 = fs w" using estimate_page_fs [of E page w] by simp
  let ?cond = "int (current_size_estimate st + ts) > m \<and> length (current_writer st) > 0"
  from Cons.prems(2) have inv: "sealed E m pre chunks w" "current_part st = Suc (length chunks)"
    "parts st = map (part_path pre) [1..<current_part st]"
    "current_size_estimate st = estimate E (current_writer st)"
    "2 \<le> length (current_writer st) \<longrightarrow> int (estimate E (current_writer st)) \<le> m"
    by (simp_all add: split_inv_def)
  show ?case
  proof (cases ?cond)
    case True
    obtain r2 w2 where sp: "save_part E pre st w1 = (r2, w2)" by (cases "save_part E pre st w1")
    with Cons.prems(1) ep r True obtain st1 where r2: "r2 = Inr st1" by (cases r2) auto
    from save_part_Inr [OF sp [unfolded r2]] obtain loc
      where st1: "st1 = st\<lparr>parts := parts st @ [part_path pre (current_part st)]\<rparr>"
      and l2: "locate E w1 (part_path pre (current_part st)) = Inr loc"
      and nd: "fs w1 loc \<noteq> Some Directory"
      and fs2: "fs w2 = (fs w1)(loc \<mapsto> Regular (written E (current_writer st)))"
      by blast
    let ?st3 = "(start_new_part st1)\<lparr>current_writer := add_page (current_writer (start_new_part st1)) page,
          current_size_estimate := current_size_estimate (start_new_part st1) + ts\<rparr>"
    from Cons.prems(1) ep r True sp r2
    have run: "split_loop E m pre rest ?st3 w2 = (Inr st', w')" by simp
    have sealed1: "sealed E m pre chunks w1" using inv(1) fs1 by (rule sealed_fs_cong)
    have ne: "current_writer st \<noteq> []" using True by auto
    have "sealed E m pre (chunks @ [current_writer st]) w2"
      using sealed1 ne inv(5) l2 [unfolded inv(2)] nd fs2 by (rule sealed_snoc)
    then have "split_inv E m pre (chunks @ [current_writer st]) ?st3 w2"
      using inv st1 ts by (simp add: split_inv_def start_new_part_def add_page_def estimate_def)
    from Cons.IH [OF run this] obtain chunks' where
      "split_inv E m pre chunks' st' w'"
      "concat chunks' @ current_writer st' = concat (chunks @ [current_writer st]) @ current_writer ?st3 @ rest"
      by blast
    then show ?thesis by (auto simp: st1 start_new_part_def add_page_def)
  next
    case False
    let ?st3 = "st\<lparr>current_writer := add_page (current_writer st) page,
          current_size_estimate := current_size_estimate st + ts\<rparr>"
    from Cons.prems(1) ep r False
    have run: "split_loop E m pre rest ?st3 w1 = (Inr st', w')" by auto
    have sealed1: "sealed E m pre chunks w1" using inv(1) fs1 by (rule sealed_fs_cong)
    have "split_inv E m pre chunks ?st3 w1"
      using sealed1 inv False ts
      by (auto simp: split_inv_def add_page_def estimate_def)
    from Cons.IH [OF run this] obtain chunks' where
      "split_inv E m pre chunks' st' w'"
      "concat chunks' @ current_writer st' = concat chunks @ current_writer ?st3 @ rest"
      by blast
    then show ?thesis by (auto simp: add_page_def)
  qed
qed

lemma split_inv_init:
  "split_inv E m pre [] \<lparr>parts = [], current_part = 1, current_writer = [], current_size_estimate = 0\<rparr> w"
  by (simp add: split_inv_def sealed_def estimate_def)

lemma split_pdf_parts:
  assumes f: "file_at E w input_path = Some (Regular f)" and ps: "pages f = Some ps"
    and big: "\<not> int (nbytes f) \<le> max_size_mb * 1024 * 1024"
    and run: "split_pdf E input_path max_size_mb opt w = (Inr out, w')"
  shows "\<exists>chunks. sealed E (max_size_mb * 1024 * 1024) (resolve_prefix E input_path opt) chunks w' \<and>
           out = map (part_path (resolve_prefix E input_path opt)) [1..<Suc (length chunks)] \<and>
           concat chunks = ps"
proof -
  let ?m = "max_size_mb * 1024 * 1024"
  let ?pre = "resolve_prefix E input_path opt"
  let ?st0 = "\<lparr>parts = [], current_part = 1, current_writer = [], current_size_estimate = 0\<rparr> :: 'a split_state"
  let ?w1 = "w\<lparr>trace := trace w @ [Open input_path RB]\<rparr>"
  let ?w2 = "w\<lparr>trace := trace w @ [Open input_path RB, GetSize input_path]\<rparr>"
  have o: "open_rb E input_path w = (Inr f, ?w1)" using f by (rule open_rb_file)
  have "file_at E ?w1 input_path = Some (Regular f)" using f by simp
  from getsize_file [OF this] have g: "getsize E input_path ?w1 = (Inr (nbytes f), ?w2)" by simp
  obtain r w3 where loop: "split_loop E ?m ?pre ps ?st0 ?w2 = (r, w3)"
    by (cases "split_loop E ?m ?pre ps ?st0 ?w2")
  from run o g ps big loop obtain st where r: "r = Inr st"
    by (cases r) (auto simp: split_pdf_def pdf_reader_def Let_def)
  from split_loop_inv [OF loop [unfolded r] split_inv_init]
  obtain chunks where inv: "split_inv E ?m ?pre chunks st w3"
    and cc: "concat chunks @ current_writer st = ps" by auto
  from inv have s3: "sealed E ?m ?pre chunks w3" and cp: "current_part st = Suc (length chunks)"
    and pp: "parts st = map (part_path ?pre) [1..<current_part st]"
    and bud: "2 \<le> length (current_writer st) \<longrightarrow> int (estimate E (current_writer st)) \<le> ?m"
    by (simp_all add: split_inv_def)
  show ?thesis
  proof (cases "length (current_writer st) > 0")
    case True
    obtain r4 w4 where sp: "save_part E ?pre st w3 = (r4, w4)" by (cases "save_part E ?pre st w3")
    from run o g ps big loop r True sp obtain st1 where r4: "r4 = Inr st1" and o': "out = parts st1" and w': "w' = w4"
      by (cases r4) (auto simp: split_pdf_def pdf_reader_def Let_def)
    from save_part_Inr [OF sp [unfolded r4]] obtain loc
      where st1: "st1 = st\<lparr>parts := parts st @ [part_path ?pre (current_part st)]\<rparr>"
      and l4: "locate E w3 (part_path ?pre (current_part st)) = Inr loc"
      and nd: "fs w3 loc \<noteq> Some Directory"
      and fs4: "fs w4 = (fs w3)(loc \<mapsto> Regular (written E (current_writer st)))"
      by blast
    have ne: "current_writer st \<noteq> []" using True by auto
    have "sealed E ?m ?pre (chunks @ [current_writer st]) w4"
      using s3 ne bud l4 [unfolded cp] nd fs4 by (rule sealed_snoc)
    moreover have "out = map (part_path ?pre) [1..<Suc (length (chunks @ [current_writer st]))]"
      using o' st1 pp cp by simp
    moreover have "concat (chunks @ [current_writer st]) = ps" using cc by simp
    ultimately show ?thesis using w' by blast
  next
    case False
    with run o g ps big loop r have o': "out = parts st" and w': "w' = w3"
      by (auto simp: split_pdf_def pdf_reader_def Let_def)
    from False cc have "concat chunks = ps" by simp
    with s3 o' pp cp w' show ?thesis by auto
  qed
qed

lemma sealed_read_pages:
  "sealed E m pre chunks w \<Longrightarrow>
   map (read_pages E w) (map (part_path pre) [1..<Suc (length chunks)]) = chunks"
  by (rule nth_equalityI) (auto simp: sealed_def read_pages_def written_def nth_upt simp del: upt_Suc)

lemma part_paths_distinct: "distinct (map (part_path pre) [a..<b])"
  by (simp add: distinct_map inj_on_def part_path_inj)

lemma part_files_distinct: "distinct (map (resolve E) (map (part_path pre) [a..<b]))"
  by (simp add: distinct_map inj_on_def part_path_inj resolve_part_path_inj)

lemma estimate_member: "page \<in> set c \<Longrightarrow> doc_size E [page] \<le> estimate E c"
  unfolding estimate_def by (induction c) auto

lemma example_split:
  "fst (split_pdf example_env ''in.pdf'' 2 None example_world) = Inr [''in_part1.pdf'', ''in_part2.pdf'']"
  by (simp add: model_defs example_env_def example_world_def example_file_def Let_def str_nat.simps digit_char_def)

lemma example_split_run:
  "split_pdf example_env ''in.pdf'' 2 None example_world =
     (Inr [''in_part1.pdf'', ''in_part2.pdf''], snd (split_pdf example_env ''in.pdf'' 2 None example_world))"
  using example_split by (metis prod.collapse)

lemma example_world_file: "file_at example_env example_world ''in.pdf'' = Some (Regular example_file)"
  by (simp add: model_defs example_env_def example_world_def)

lemma example_file_pages: "pages example_file = Some [1, 1, 3]"
  by (simp add: example_file_def)

lemma example_file_big: "\<not> int (nbytes example_file) \<le> 2 * 1024 * 1024"
  by (simp add: example_file_def)

lemma example_read_part1:
  "read_pages example_env (snd (split_pdf example_env ''in.pdf'' 2 None example_world)) ''in_part1.pdf'' = [1, 1]"
  by (simp add: model_defs read_pages_def example_env_def example_world_def example_file_def Let_def
        str_nat.simps digit_char_def)

lemma example_read_part2:
  "read_pages example_env (snd (split_pdf example_env ''in.pdf'' 2 None example_world)) ''in_part2.pdf'' = [3]"
  by (simp add: model_defs read_pages_def example_env_def example_world_def example_file_def Let_def
        str_nat.simps digit_char_def)

text \<open>
  C1. For an input that does not take the short-circuit path, a successful split returns
  parts whose pages, read back from disk and concatenated in order, are the original page
  sequence; the part paths are those of the indices 1, 2, ... up to the number of parts,
  without gaps; they are pairwise distinct paths and name pairwise distinct files, each
  holding a non-empty run of pages, so every input page is in exactly one part.
\<close>

theorem split_pdf_concat:
  assumes "file_at E w input_path = Some (Regular f)" and "pages f = Some ps"
    and "\<not> int (nbytes f) \<le> max_size_mb * 1024 * 1024"
    and "split_pdf E input_path max_size_mb opt w = (Inr out, w')"
  shows "concat (map (read_pages E w') out) = ps \<and>
         out = map (part_path (resolve_prefix E input_path opt)) [1..<Suc (length out)] \<and>
         distinct out \<and> distinct (map (resolve E) out) \<and>
         (\<forall>p\<in>set out. read_pages E w' p \<noteq> [] \<and>
                       file_at E w' p = Some (Regular (written E (read_pages E w' p))))"
proof -
  let ?pre = "resolve_prefix E input_path opt"
  from split_pdf_parts [OF assms] obtain chunks where
    s: "sealed E (max_size_mb * 1024 * 1024) ?pre chunks w'"
    and o: "out = map (part_path ?pre) [1..<Suc (length chunks)]"
    and c: "concat chunks = ps" by blast
  from sealed_read_pages [OF s] o have m: "map (read_pages E w') out = chunks" by simp
  have l: "length out = length chunks" using o by (simp del: upt_Suc)
  have "\<forall>p\<in>set out. read_pages E w' p \<noteq> [] \<and>
          file_at E w' p = Some (Regular (written E (read_pages E w' p)))"
  proof
    fix p assume "p \<in> set out"
    then obtain i where i: "i < length out" "p = out ! i" by (auto simp: in_set_conv_nth)
    with l o have p: "p = part_path ?pre (Suc i)" by (simp add: nth_upt del: upt_Suc)
    from i l m have r: "read_pages E w' p = chunks ! i" by (metis nth_map)
    from s i l have "file_at E w' (part_path ?pre (Suc i)) = Some (Regular (written E (chunks ! i)))"
      and "chunks ! i \<noteq> []" by (auto simp: sealed_def)
    with p r show "read_pages E w' p \<noteq> [] \<and>
        file_at E w' p = Some (Regular (written E (read_pages E w' p)))"
      by simp
  qed
  moreover have "distinct out" unfolding o by (rule part_paths_distinct)
  moreover have "distinct (map (resolve E) out)" unfolding o by (rule part_files_distinct)
  ultimately show ?thesis using m c o l by simp
qed

theorem split_pdf_concat_witness:
  "file_at example_env example_world ''in.pdf'' = Some (Regular example_file) \<and>
   pages example_file = Some [1, 1, 3] \<and>
   \<not> int (nbytes example_file) \<le> 2 * 1024 * 1024 \<and>
   split_pdf example_env ''in.pdf'' 2 None example_world =
     (Inr [''in_part1.pdf'', ''in_part2.pdf''], snd (split_pdf example_env ''in.pdf'' 2 None example_world)) \<and>
   concat (map (read_pages example_env (snd (split_pdf example_env ''in.pdf'' 2 None example_world)))
             [''in_part1.pdf'', ''in_part2.pdf'']) = [1, 1, 3]"
proof -
  from split_pdf_concat [OF example_world_file example_file_pages example_file_big example_split_run]
  have "concat (map (read_pages example_env (snd (split_pdf example_env ''in.pdf'' 2 None example_world)))
             [''in_part1.pdf'', ''in_part2.pdf'']) = [1, 1, 3]" by (rule conjunct1)
  then show ?thesis
    using example_world_file example_file_pages example_file_big example_split_run by blast
qed

text \<open>
  C2. Every part a successful split has sealed has an accumulated estimate (the sum of
  the single-page sizes, which is the value of \<^verbatim>\<open>current_size_estimate\<close> when the part
  is written, by \<open>split_inv\<close>) within the budget, unless it is one page whose own estimate
  exceeds the budget; a part of two or more pages is within the budget; and a page whose
  own estimate exceeds the budget is alone in its part.
\<close>

theorem split_pdf_budget:
  assumes "file_at E w input_path = Some (Regular f)" and "pages f = Some ps"
    and "\<not> int (nbytes f) \<le> max_size_mb * 1024 * 1024"
    and "split_pdf E input_path max_size_mb opt w = (Inr out, w')"
    and "p \<in> set out"
  shows "(int (estimate E (read_pages E w' p)) \<le> max_size_mb * 1024 * 1024 \<or>
          (\<exists>page. read_pages E w' p = [page] \<and> max_size_mb * 1024 * 1024 < int (doc_size E [page]))) \<and>
         (2 \<le> length (read_pages E w' p) \<longrightarrow>
            int (estimate E (read_pages E w' p)) \<le> max_size_mb * 1024 * 1024) \<and>
         (\<forall>page\<in>set (read_pages E w' p).
            max_size_mb * 1024 * 1024 < int (doc_size E [page]) \<longrightarrow> read_pages E w' p = [page])"
proof -
  let ?pre = "resolve_prefix E input_path opt"
  let ?m = "max_size_mb * 1024 * 1024"
  let ?c = "read_pages E w' p"
  from split_pdf_parts [OF assms(1-4)] obtain chunks where
    s: "sealed E ?m ?pre chunks w'"
    and o: "out = map (part_path ?pre) [1..<Suc (length chunks)]" by blast
  from sealed_read_pages [OF s] o have m: "map (read_pages E w') out = chunks" by simp
  with assms(5) have "?c \<in> set chunks" by auto
  with s have ne: "?c \<noteq> []" and two: "2 \<le> length ?c \<longrightarrow> int (estimate E ?c) \<le> ?m"
    by (auto simp: sealed_def)
  have one: "int (estimate E ?c) \<le> ?m \<or> (\<exists>page. ?c = [page] \<and> ?m < int (doc_size E [page]))"
  proof (cases "2 \<le> length ?c")
    case True
    with two show ?thesis by simp
  next
    case False
    with ne obtain page where pg: "?c = [page]" by (cases ?c) (auto simp: not_le less_Suc_eq_le)
    then have "estimate E ?c = doc_size E [page]" by (simp add: estimate_def)
    with pg show ?thesis by auto
  qed
  have alone: "\<forall>page\<in>set ?c. ?m < int (doc_size E [page]) \<longrightarrow> ?c = [page]"
  proof (intro ballI impI)
    fix page assume pg: "page \<in> set ?c" and ov: "?m < int (doc_size E [page])"
    from estimate_member [OF pg, of E] ov have "?m < int (estimate E ?c)" by linarith
    with two have "\<not> 2 \<le> length ?c" by auto
    with ne pg show "?c = [page]" by (cases ?c) (auto simp: not_le less_Suc_eq_le)
  qed
  from one two alone show ?thesis by blast
qed

theorem split_pdf_budget_witness:
  "file_at example_env example_world ''in.pdf'' = Some (Regular example_file) \<and>
   pages example_file = Some [1, 1, 3] \<and>
   \<not> int (nbytes example_file) \<le> 2 * 1024 * 1024 \<and>
   split_pdf example_env ''in.pdf'' 2 None example_world =
     (Inr [''in_part1.pdf'', ''in_part2.pdf''], snd (split_pdf example_env ''in.pdf'' 2 None example_world)) \<and>
   ''in_part1.pdf'' \<in> set [''in_part1.pdf'', ''in_part2.pdf''] \<and>
   ''in_part2.pdf'' \<in> set [''in_part1.pdf'', ''in_part2.pdf''] \<and>
   2 \<le> length (read_pages example_env (snd (split_pdf example_env ''in.pdf'' 2 None example_world)) ''in_part1.pdf'') \<and>
   int (estimate example_env
          (read_pages example_env (snd (split_pdf example_env ''in.pdf'' 2 None example_world)) ''in_part1.pdf''))
     \<le> 2 * 1024 * 1024 \<and>
   3 \<in> set (read_pages example_env (snd (split_pdf example_env ''in.pdf'' 2 None example_world)) ''in_part2.pdf'') \<and>
   2 * 1024 * 1024 < int (doc_size example_env [3]) \<and>
   read_pages example_env (snd (split_pdf example_env ''in.pdf'' 2 None example_world)) ''in_part2.pdf'' = [3]"
proof -
  let ?w = "snd (split_pdf example_env ''in.pdf'' 2 None example_world)"
  have m1: "''in_part1.pdf'' \<in> set [''in_part1.pdf'', ''in_part2.pdf'']" by simp
  have m2: "''in_part2.pdf'' \<in> set [''in_part1.pdf'', ''in_part2.pdf'']" by simp
  have two: "2 \<le> length (read_pages example_env ?w ''in_part1.pdf'')" by (simp add: example_read_part1)
  have mem: "3 \<in> set (read_pages example_env ?w ''in_part2.pdf'')" by (simp add: example_read_part2)
  have over: "2 * 1024 * 1024 < int (doc_size example_env [3])" by (simp add: example_env_def)
  from split_pdf_budget [OF example_world_file example_file_pages example_file_big example_split_run m1]
    two
  have b1: "int (estimate example_env (read_pages example_env ?w ''in_part1.pdf'')) \<le> 2 * 1024 * 1024" by blast
  from split_pdf_budget [OF example_world_file example_file_pages example_file_big example_split_run m2]
    mem over
  have b2: "read_pages example_env ?w ''in_part2.pdf'' = [3]" by blast
  show ?thesis
    using example_world_file example_file_pages example_file_big example_split_run m1 m2 two b1 mem over b2
    by blast
qed

section \<open>Short circuit and quality validation\<close>

text \<open>
  C5. When the input file's size on disk is at most the budget, split returns the
  one-element list holding the input path; the file system is the one it started from
  (no file is created, none is copied), and the only events are the read-only open of the
  input and the reading of its size.
\<close>

theorem split_pdf_short_circuit:
  assumes "file_at E w input_path = Some (Regular f)"
    and "int (nbytes f) \<le> max_size_mb * 1024 * 1024"
  shows "split_pdf E input_path max_size_mb output_prefix w =
           (Inr [input_path], w\<lparr>trace := trace w @ [Open input_path RB, GetSize input_path]\<rparr>)"
proof -
  let ?w1 = "w\<lparr>trace := trace w @ [Open input_path RB]\<rparr>"
  have o: "open_rb E input_path w = (Inr f, ?w1)" using assms(1) by (rule open_rb_file)
  have "file_at E ?w1 input_path = Some (Regular f)" using assms(1) by simp
  from getsize_file [OF this]
  have g: "getsize E input_path ?w1 =
             (Inr (nbytes f), w\<lparr>trace := trace w @ [Open input_path RB, GetSize input_path]\<rparr>)"
    by simp
  from o g assms(2) show ?thesis by (simp add: split_pdf_def Let_def)
qed

theorem split_pdf_short_circuit_witness:
  "file_at example_env example_world ''in.pdf'' = Some (Regular example_file) \<and>
   int (nbytes example_file) \<le> 5 * 1024 * 1024 \<and>
   split_pdf example_env ''in.pdf'' 5 None example_world =
     (Inr [''in.pdf''],
      example_world\<lparr>trace := trace example_world @ [Open ''in.pdf'' RB, GetSize ''in.pdf'']\<rparr>)"
proof -
  have s: "int (nbytes example_file) \<le> 5 * 1024 * 1024" by (simp add: example_file_def)
  from split_pdf_short_circuit [OF example_world_file s] example_world_file s
  show ?thesis by blast
qed

text \<open>
  C6. For a quality name other than low, medium and high, compress fails with the
  invalid-quality error and the world is the one it started from: no scratch directory,
  no other file, and no event in the trace, so the input was never opened.
\<close>

theorem compress_pdf_invalid_quality:
  "qname \<notin> {''low'', ''medium'', ''high''} \<Longrightarrow>
   compress_pdf E input_path output_path qname w = (Inl InvalidQuality, w)"
  by (simp add: compress_pdf_def quality_settings_def)

theorem compress_pdf_invalid_quality_witness:
  "''best'' \<notin> {''low'', ''medium'', ''high''} \<and>
   compress_pdf example_env ''in.pdf'' ''out.pdf'' ''best'' example_world
     = (Inl InvalidQuality, example_world)"
proof -
  have h: "''best'' \<notin> {''low'', ''medium'', ''high''}" by simp
  from compress_pdf_invalid_quality [OF h] h show ?thesis by blast
qed

section \<open>Frame: what a call leaves alone\<close>












lemma keeps_dir_open_rb: "fs (snd (open_rb E q w)) = fs w"
  by (simp add: open_rb_def Let_def split: sum.splits option.splits node.splits)

lemma keeps_dir_write_pdf:
  "fs w k = Some Directory \<Longrightarrow> fs (snd (write_pdf E q ps w)) k = Some Directory"
  by (auto simp: write_pdf_def Let_def split: sum.splits)






lemma mkdtemp_Inr:
  assumes "mkdtemp E w = (Inr d, w1)"
  shows "d \<in> set (tmp_names E) \<and> locate E w d = Inr (resolve E d) \<and> fs w (resolve E d) = None \<and>
         fs w1 = (fs w)(resolve E d \<mapsto> Directory) \<and> trace w1 = trace w @ [MkDtemp d]"
proof -
  from assms obtain t where t: "find (\<lambda>t. file_at E w t = None) (tmp_names E) = Some t"
    by (cases "find (\<lambda>t. file_at E w t = None) (tmp_names E)") (auto simp: mkdtemp_def)
  with assms obtain loc where l: "locate E w t = Inr loc"
    by (cases "locate E w t") (auto simp: mkdtemp_def)
  from assms t l have d: "d = t" and w1: "w1 = w\<lparr>fs := (fs w)(loc \<mapsto> Directory), trace := trace w @ [MkDtemp t]\<rparr>"
    by (auto simp: mkdtemp_def)
  from l have loc: "loc = resolve E t" by (rule locate_resolve)
  from find_fresh [OF t] l have "fs w loc = None" by (simp add: file_at_def)
  with find_fresh [OF t] l d w1 loc show ?thesis by simp
qed








lemma compress_pdf_snd:
  assumes q: "quality_settings qname = Some st" and m: "mkdtemp E w = (Inr d, w1)"
  shows "snd (compress_pdf E i out qname w) =
           snd (rmtree E d (snd (compress_body E i out st d w1)))"
  using q m by (simp add: compress_pdf_def split: prod.splits sum.splits)


lemma keeps_dir_subprocess_run:
  "fs w k = Some Directory \<Longrightarrow> fs (snd (subprocess_run E cmd w)) k = Some Directory"
  by (auto simp: subprocess_run_def Let_def split: prod.splits option.splits sum.splits)

lemma keeps_dir_run_ghostscript:
  "fs w k = Some Directory \<Longrightarrow> fs (snd (run_ghostscript E i out dp q w)) k = Some Directory"
  using keeps_dir_subprocess_run [of "w\<lparr>trace := trace w @ [Which ''gs'']\<rparr>" k E "gs_cmd i out dp q"]
  by (auto simp: run_ghostscript_def shutil_which_def split: prod.splits sum.splits error.splits)

lemma keeps_dir_compress_body:
  assumes "fs w k = Some Directory"
  shows "fs (snd (compress_body E i out st td w)) k = Some Directory"
proof -
  obtain r1 w1 where o: "open_rb E i w = (r1, w1)" by (cases "open_rb E i w")
  have f1: "fs w1 k = Some Directory" using keeps_dir_open_rb [of E i w] o assms by simp
  show ?thesis
  proof (cases r1)
    case (Inl e)
    with o f1 show ?thesis by (simp add: compress_body_def)
  next
    case f: (Inr f)
    show ?thesis
    proof (cases "pdf_reader i f")
      case (Inl e)
      with o f f1 show ?thesis by (simp add: compress_body_def)
    next
      case pg: (Inr pdf_pages)
      let ?tp = "path_join td ''temp.pdf''"
      obtain r2 w2 where wr: "write_pdf E ?tp (foldl add_page [] pdf_pages) w1 = (r2, w2)"
        by (cases "write_pdf E ?tp (foldl add_page [] pdf_pages) w1")
      have f2: "fs w2 k = Some Directory"
        using keeps_dir_write_pdf [OF f1, of E ?tp "foldl add_page [] pdf_pages"] wr by simp
      show ?thesis
      proof (cases r2)
        case (Inl e)
        with o f pg wr f2 show ?thesis by (simp add: compress_body_def Let_def)
      next
        case (Inr u)
        from keeps_dir_run_ghostscript [OF f2, of E ?tp out "dpi st" "quality st"]
        show ?thesis using o f pg wr Inr by (simp add: compress_body_def Let_def)
      qed
    qed
  qed
qed

lemma rmtree_directory:
  assumes "locate E w d = Inr loc" and "fs w loc = Some Directory"
  shows "rmtree E d w =
           (Inr (), w\<lparr>trace := trace w @ [RmTree d],
                      fs := (\<lambda>k. if prefix loc k then None else fs w k)\<rparr>)"
  using assms by (simp add: rmtree_def Let_def)







lemma example_scratch_fresh: "scratch_fresh example_env example_world"
  by (auto simp: scratch_fresh_def example_env_def example_world_def resolve_def components_def
        start_of_def enter_def prefix_def)




lemma quality_settings_valid:
  "qname \<in> {''low'', ''medium'', ''high''} \<Longrightarrow> \<exists>st. quality_settings qname = Some st"
  by (auto simp: quality_settings_def)

lemma example_mkdtemp: "fst (mkdtemp example_env example_world) = Inr ''/tmp/tmpa''"
  by (simp add: mkdtemp_def model_defs example_env_def example_world_def)

lemma scratch_dir_kept:
  assumes m: "mkdtemp E w = (Inr d, w1)"
  shows "locate E (snd (compress_body E i out st d w1)) d = Inr (resolve E d) \<and>
         fs (snd (compress_body E i out st d w1)) (resolve E d) = Some Directory"
proof -
  let ?w2 = "snd (compress_body E i out st d w1)"
  from mkdtemp_Inr [OF m] have l: "locate E w d = Inr (resolve E d)"
    and f1: "fs w1 = (fs w)(resolve E d \<mapsto> Directory)" by simp_all
  have k: "\<forall>k. fs w k = Some Directory \<longrightarrow> fs ?w2 k = Some Directory"
  proof (intro allI impI)
    fix k assume "fs w k = Some Directory"
    with f1 have "fs w1 k = Some Directory" by simp
    then show "fs ?w2 k = Some Directory" by (rule keeps_dir_compress_body)
  qed
  from f1 have "fs w1 (resolve E d) = Some Directory" by simp
  then have "fs ?w2 (resolve E d) = Some Directory" by (rule keeps_dir_compress_body)
  with locate_mono [OF k l] show ?thesis by simp
qed

text \<open>
  C3. For a valid quality name, the scratch directory that \<^verbatim>\<open>mkdtemp\<close> created does not
  exist when compress ends, and nothing exists at or under its location, whatever the
  result of the call: the statement puts no condition on the result, so it covers success,
  an engine failure, a missing engine and every error of reading or writing.
\<close>

theorem scratch_removed:
  assumes q: "qname \<in> {''low'', ''medium'', ''high''}" and m: "fst (mkdtemp E w) = Inr d"
  shows "file_at E (snd (compress_pdf E input_path output_path qname w)) d = None \<and>
         (\<forall>k. prefix (resolve E d) k \<longrightarrow>
            fs (snd (compress_pdf E input_path output_path qname w)) k = None)"
proof -
  let ?w' = "snd (compress_pdf E input_path output_path qname w)"
  from quality_settings_valid [OF q] obtain st where st: "quality_settings qname = Some st" ..
  obtain w1 where m1: "mkdtemp E w = (Inr d, w1)" using m by (cases "mkdtemp E w") simp
  let ?w2 = "snd (compress_body E input_path output_path st d w1)"
  from scratch_dir_kept [OF m1, of input_path output_path st]
  have l: "locate E ?w2 d = Inr (resolve E d)" and dir: "fs ?w2 (resolve E d) = Some Directory"
    by simp_all
  have "?w' = snd (rmtree E d ?w2)" using st m1 by (rule compress_pdf_snd)
  with rmtree_directory [OF l dir]
  have gone: "\<forall>k. prefix (resolve E d) k \<longrightarrow> fs ?w' k = None" by simp
  have "file_at E ?w' d = None"
  proof (cases "locate E ?w' d")
    case (Inl e)
    then show ?thesis by (simp add: file_at_def)
  next
    case (Inr loc)
    from locate_resolve [OF Inr] gone have "fs ?w' loc = None" by simp
    with Inr show ?thesis by (simp add: file_at_def)
  qed
  with gone show ?thesis by simp
qed

theorem scratch_removed_witness:
  "''low'' \<in> {''low'', ''medium'', ''high''} \<and>
   fst (mkdtemp example_env example_world) = Inr ''/tmp/tmpa'' \<and>
   file_at example_env (snd (compress_pdf example_env ''in.pdf'' ''out.pdf'' ''low'' example_world))
     ''/tmp/tmpa'' = None"
proof -
  have q: "''low'' \<in> {''low'', ''medium'', ''high''}" by simp
  from scratch_removed [OF q example_mkdtemp, of "''in.pdf''" "''out.pdf''"]
  have "file_at example_env (snd (compress_pdf example_env ''in.pdf'' ''out.pdf'' ''low'' example_world))
     ''/tmp/tmpa'' = None"
    by (rule conjunct1)
  with q example_mkdtemp show ?thesis by blast
qed

section \<open>Missing engine, and routing of the command line\<close>

lemma quiet_refl: "quiet w w"
  by (simp add: quiet_def)

lemma quiet_trans: "quiet w w1 \<Longrightarrow> quiet w1 w2 \<Longrightarrow> quiet w w2"
  unfolding quiet_def by (elim conjE exE) (rule_tac x = "evs @ evsa" in exI, auto)

lemma quiet_new_events: "quiet w w' \<Longrightarrow> \<forall>cmd. Run cmd \<notin> set (new_events w w')"
  by (auto simp: quiet_def new_events_def)

lemma quiet_mkdtemp: "quiet w (snd (mkdtemp E w))"
  by (auto simp: quiet_def mkdtemp_def split: option.splits sum.splits)

lemma quiet_rmtree: "quiet w (snd (rmtree E d w))"
  by (auto simp: quiet_def rmtree_def Let_def split: sum.splits option.splits node.splits)

lemma run_ghostscript_missing:
  "which E ''gs'' = None \<Longrightarrow>
   run_ghostscript E i out d q w = (Inl GsNotFound, w\<lparr>trace := trace w @ [Which ''gs'']\<rparr>)"
  by (simp add: run_ghostscript_def shutil_which_def)

lemma walk_append:
  "walk files p loc (xs @ ys) =
     (case walk files p loc xs of Inl e \<Rightarrow> Inl e | Inr m \<Rightarrow> walk files p m ys)"
  by (induction xs arbitrary: loc) (auto split: option.splits node.splits)

lemma walk_path:
  "walk files p loc cs = Inr l \<Longrightarrow> walk files q loc cs = Inr l"
  by (induction cs arbitrary: loc) (auto split: option.splits node.splits)

lemma locate_temp_pdf:
  assumes l: "locate E w d = Inr loc" and dir: "fs w loc = Some Directory"
  shows "locate E w (path_join d ''temp.pdf'') = Inr (loc @ [''temp.pdf''])"
proof -
  let ?core = "filter (\<lambda>c. c \<noteq> []) (split_slash d)"
  let ?tp = "path_join d ''temp.pdf''"
  have a: "''temp.pdf'' \<noteq> []" and b: "CHR ''/'' \<notin> set ''temp.pdf''" by simp_all
  have tp: "?tp = dir_prefix d @ ''temp.pdf''" by (simp add: path_join_def)
  from l have ne: "d \<noteq> []" by (auto simp: locate_def split: if_splits)
  from l ne have w: "walk (fs w) d (start_of (cwd E) d) (components d) = Inr loc"
    by (simp add: locate_def)
  have "walk (fs w) d (start_of (cwd E) d) ?core = Inr loc"
  proof (cases "last d = CHR ''/''")
    case False
    with w show ?thesis by (simp add: components_def)
  next
    case True
    with w ne have "(case walk (fs w) d (start_of (cwd E) d) ?core of
                       Inl e \<Rightarrow> Inl e | Inr m \<Rightarrow> walk (fs w) d m [''.'']) = Inr loc"
      by (simp add: components_def walk_append)
    then show ?thesis
      by (auto simp: enter_def split: sum.splits option.splits node.splits)
  qed
  then have c: "walk (fs w) ?tp (start_of (cwd E) d) ?core = Inr loc" by (rule walk_path)
  have "locate E w ?tp = walk (fs w) ?tp (start_of (cwd E) d) (?core @ [''temp.pdf''])"
    unfolding locate_def tp components_dir_prefix [OF a b] start_of_dir_prefix [OF b]
    by simp
  also have "\<dots> = Inr (loc @ [''temp.pdf''])"
    using c dir by (simp add: walk_append enter_def)
  finally show ?thesis .
qed

lemma compress_body_missing:
  assumes "which E ''gs'' = None"
  shows "quiet w (snd (compress_body E i out st td w)) \<and>
         (\<exists>e. fst (compress_body E i out st td w) = Inl e) \<and>
         (file_at E w i = Some (Regular f) \<and> pages f \<noteq> None \<and> writable E (path_join td ''temp.pdf'')
            \<and> locate E w (path_join td ''temp.pdf'') = Inr loc \<and> fs w loc \<noteq> Some Directory
          \<longrightarrow> fst (compress_body E i out st td w) = Inl GsNotFound)"
proof -
  obtain r1 w1 where o: "open_rb E i w = (r1, w1)" by (cases "open_rb E i w")
  have w1: "w1 = w\<lparr>trace := trace w @ [Open i RB]\<rparr>"
    using o by (auto simp: open_rb_def Let_def split: sum.splits option.splits node.splits)
  let ?tp = "path_join td ''temp.pdf''"
  show ?thesis
  proof (cases r1)
    case (Inl e)
    with o w1 have "compress_body E i out st td w = (Inl e, w1)" by (simp add: compress_body_def)
    moreover from Inl o have "file_at E w i \<noteq> Some (Regular f)"
      using open_rb_file [of E w i f] by auto
    ultimately show ?thesis using w1 by (auto simp: quiet_def)
  next
    case (Inr g)
    show ?thesis
    proof (cases "pdf_reader i g")
      case (Inl e)
      with o Inr have c: "compress_body E i out st td w = (Inl e, w1)"
        by (simp add: compress_body_def)
      have "\<not> (file_at E w i = Some (Regular f) \<and> pages f \<noteq> None)"
      proof
        assume h: "file_at E w i = Some (Regular f) \<and> pages f \<noteq> None"
        with open_rb_file [of E w i f] o Inr have "g = f" by simp
        with Inl h show False by (auto simp: pdf_reader_def split: option.splits)
      qed
      with c w1 show ?thesis by (auto simp: quiet_def)
    next
      case pg: (Inr pdf_pages)
      obtain r2 w2 where wr: "write_pdf E ?tp (foldl add_page [] pdf_pages) w1 = (r2, w2)"
        by (cases "write_pdf E ?tp (foldl add_page [] pdf_pages) w1")
      have t2: "trace w2 = trace w1 @ [Open ?tp WB]"
        using wr by (auto simp: write_pdf_def Let_def split: sum.splits if_splits)
      show ?thesis
      proof (cases r2)
        case (Inl e)
        with o Inr pg wr have c: "compress_body E i out st td w = (Inl e, w2)"
          by (simp add: compress_body_def Let_def)
        have "\<not> (writable E ?tp \<and> locate E w ?tp = Inr loc \<and> fs w loc \<noteq> Some Directory)"
          using wr Inl w1 by (auto simp: write_pdf_def Let_def split: sum.splits if_splits)
        with c w1 t2 show ?thesis by (auto simp: quiet_def)
      next
        case u: (Inr u)
        with o Inr pg wr have c: "compress_body E i out st td w =
            (Inl GsNotFound, w2\<lparr>trace := trace w2 @ [Which ''gs'']\<rparr>)"
          by (simp add: compress_body_def Let_def run_ghostscript_missing [OF assms])
        with w1 t2 show ?thesis by (auto simp: quiet_def)
      qed
    qed
  qed
qed

lemma compress_pdf_unfold:
  assumes "quality_settings qname = Some st" and "mkdtemp E w = (Inr d, w1)"
    and "compress_body E i out st d w1 = (r, w2)"
  shows "compress_pdf E i out qname w =
           (case fst (rmtree E d w2) of Inl e \<Rightarrow> Inl e | Inr u \<Rightarrow> r, snd (rmtree E d w2))"
  using assms by (simp add: compress_pdf_def split: prod.splits sum.splits)

lemma example_no_gs_which: "which example_env_no_gs ''gs'' = None"
  by (simp add: example_env_no_gs_def)

lemma example_no_gs_mkdtemp: "fst (mkdtemp example_env_no_gs example_world) = Inr ''/tmp/tmpa''"
  by (simp add: mkdtemp_def model_defs example_env_no_gs_def example_env_def example_world_def)

lemma example_no_gs_fresh: "scratch_fresh example_env_no_gs example_world"
  using example_scratch_fresh
  by (simp add: scratch_fresh_def example_env_no_gs_def resolve_def)

lemma example_no_gs_writable: "writable example_env_no_gs (path_join ''/tmp/tmpa'' ''temp.pdf'')"
  by (simp add: example_env_no_gs_def example_env_def)

lemma example_no_gs_file:
  "file_at example_env_no_gs example_world ''in.pdf'' = Some (Regular example_file)"
  using example_world_file by (simp add: file_at_def locate_def example_env_no_gs_def)

text \<open>
  C8, as stated, fails: with the engine missing and a quality name that is not one of the
  three, compress raises the invalid-quality error, not the missing-dependency error.
\<close>

theorem missing_engine_counterexample:
  "which example_env_no_gs ''gs'' = None \<and>
   fst (compress_pdf example_env_no_gs ''in.pdf'' ''out.pdf'' ''best'' example_world)
     = Inl InvalidQuality \<and>
   fst (compress_pdf example_env_no_gs ''in.pdf'' ''out.pdf'' ''best'' example_world)
     \<noteq> Inl GsNotFound"
  by (simp add: example_env_no_gs_def compress_pdf_def quality_settings_def)

text \<open>
  C8, amended. When the engine is not on the search path, compress never runs it (no
  \<open>Run\<close> event) and always fails; the failure is the missing-dependency error whenever
  the call reaches the engine step: the quality name is valid, the scratch directory is
  created, the input is a readable PDF and the intermediate file can be written.
\<close>

theorem missing_engine:
  assumes gs: "which E ''gs'' = None"
  shows "(\<forall>cmd. Run cmd \<notin> set (new_events w (snd (compress_pdf E input_path output_path qname w)))) \<and>
         (\<exists>e. fst (compress_pdf E input_path output_path qname w) = Inl e) \<and>
         (qname \<in> {''low'', ''medium'', ''high''} \<and> fst (mkdtemp E w) = Inr d \<and>
          scratch_fresh E w \<and> file_at E w input_path = Some (Regular f) \<and> pages f \<noteq> None \<and>
          writable E (path_join d ''temp.pdf'')
            \<longrightarrow> fst (compress_pdf E input_path output_path qname w) = Inl GsNotFound)"
proof (cases "quality_settings qname")
  case None
  then have "compress_pdf E input_path output_path qname w = (Inl InvalidQuality, w)"
    by (simp add: compress_pdf_def)
  moreover from None have "qname \<notin> {''low'', ''medium'', ''high''}"
    by (auto simp: quality_settings_def)
  ultimately show ?thesis by (simp add: new_events_def)
next
  case (Some st)
  obtain r1 w1 where m: "mkdtemp E w = (r1, w1)" by (cases "mkdtemp E w")
  have q1: "quiet w w1" using quiet_mkdtemp [of w E] m by simp
  show ?thesis
  proof (cases r1)
    case (Inl e)
    with Some m have c: "compress_pdf E input_path output_path qname w = (Inl e, w1)"
      by (simp add: compress_pdf_def)
    from Inl m have "fst (mkdtemp E w) \<noteq> Inr d" by simp
    with c quiet_new_events [OF q1] show ?thesis by simp
  next
    case (Inr d')
    note m' = m [unfolded Inr]
    obtain r w2 where b: "compress_body E input_path output_path st d' w1 = (r, w2)"
      by (cases "compress_body E input_path output_path st d' w1")
    note cb = compress_body_missing [OF gs, of w1 input_path output_path st d' f
        "resolve E d' @ [''temp.pdf'']"]
    from cb b have q2: "quiet w1 w2" and re: "\<exists>e. r = Inl e" by simp_all
    note c = compress_pdf_unfold [OF Some m' b]
    have "quiet w2 (snd (rmtree E d' w2))" by (rule quiet_rmtree)
    with q1 q2 have "quiet w (snd (compress_pdf E input_path output_path qname w))"
      unfolding c by (auto intro: quiet_trans)
    then have one: "\<forall>cmd. Run cmd \<notin> set (new_events w (snd (compress_pdf E input_path output_path qname w)))"
      by (rule quiet_new_events)
    from re have two: "\<exists>e. fst (compress_pdf E input_path output_path qname w) = Inl e"
      unfolding c by (auto split: sum.splits)
    have three: "fst (compress_pdf E input_path output_path qname w) = Inl GsNotFound"
      if h: "fst (mkdtemp E w) = Inr d" "scratch_fresh E w" "file_at E w input_path = Some (Regular f)"
        "pages f \<noteq> None" "writable E (path_join d ''temp.pdf'')"
    proof -
      from h(1) m Inr have dd: "d' = d" by simp
      from mkdtemp_Inr [OF m'] dd have d: "d \<in> set (tmp_names E)" "fs w (resolve E d) = None"
        and ld: "locate E w d = Inr (resolve E d)"
        and f1: "fs w1 = (fs w)(resolve E d \<mapsto> Directory)" by simp_all
      have mono: "\<forall>k. fs w k = Some Directory \<longrightarrow> fs w1 k = Some Directory"
        using f1 by simp
      from file_at_Some [OF h(3)] have li: "locate E w input_path = Inr (resolve E input_path)"
        and fi: "fs w (resolve E input_path) = Some (Regular f)" by simp_all
      from d fi have "resolve E input_path \<noteq> resolve E d" by auto
      with f1 fi locate_mono [OF mono li]
      have i1: "file_at E w1 input_path = Some (Regular f)" by (simp add: file_at_def)
      from f1 have dir1: "fs w1 (resolve E d) = Some Directory" by simp
      from locate_temp_pdf [OF locate_mono [OF mono ld] dir1]
      have lt: "locate E w1 (path_join d ''temp.pdf'') = Inr (resolve E d @ [''temp.pdf''])" .
      from d h(2) have "fs w (resolve E d @ [''temp.pdf'']) = None"
        by (auto simp: scratch_fresh_def)
      with f1 have t1: "fs w1 (resolve E d @ [''temp.pdf'']) \<noteq> Some Directory" by simp
      from cb b i1 h(4,5) lt t1 dd have r: "r = Inl GsNotFound" by simp
      from scratch_dir_kept [OF m', of input_path output_path st] b dd
      have "locate E w2 d = Inr (resolve E d)" "fs w2 (resolve E d) = Some Directory" by simp_all
      then have "fst (rmtree E d w2) = Inr ()" by (simp add: rmtree_directory)
      with r dd show ?thesis unfolding c by simp
    qed
    from one two three show ?thesis by blast
  qed
qed

theorem missing_engine_witness:
  "which example_env_no_gs ''gs'' = None \<and>
   ''low'' \<in> {''low'', ''medium'', ''high''} \<and>
   fst (mkdtemp example_env_no_gs example_world) = Inr ''/tmp/tmpa'' \<and>
   scratch_fresh example_env_no_gs example_world \<and>
   file_at example_env_no_gs example_world ''in.pdf'' = Some (Regular example_file) \<and>
   pages example_file \<noteq> None \<and>
   writable example_env_no_gs (path_join ''/tmp/tmpa'' ''temp.pdf'') \<and>
   fst (compress_pdf example_env_no_gs ''in.pdf'' ''out.pdf'' ''low'' example_world) = Inl GsNotFound"
proof -
  have q: "''low'' \<in> {''low'', ''medium'', ''high''}" by simp
  have p: "pages example_file \<noteq> None" by (simp add: example_file_def)
  from missing_engine [OF example_no_gs_which, of example_world "''in.pdf''" "''out.pdf''" "''low''"
      "''/tmp/tmpa''" example_file]
    q example_no_gs_mkdtemp example_no_gs_fresh example_no_gs_file p example_no_gs_writable
  have "fst (compress_pdf example_env_no_gs ''in.pdf'' ''out.pdf'' ''low'' example_world) = Inl GsNotFound"
    by blast
  with example_no_gs_which q example_no_gs_mkdtemp example_no_gs_fresh example_no_gs_file p
    example_no_gs_writable
  show ?thesis by blast
qed

lemma main_routing:
  assumes "file_at E w (args_input a) \<noteq> None"
  shows "main E a w =
           (case args_split a of
              None \<Rightarrow> compress_mode E a (w\<lparr>trace := trace w @ [Exists (args_input a)]\<rparr>)
            | Some n \<Rightarrow>
                if n \<noteq> 0 then split_mode E a n (w\<lparr>trace := trace w @ [Exists (args_input a)]\<rparr>)
                else compress_mode E a (w\<lparr>trace := trace w @ [Exists (args_input a)]\<rparr>))"
  using assms by (simp add: main_def path_exists_def split: option.splits)

lemma compress_mode_no_output:
  "args_output a = None \<Longrightarrow> compress_mode E a w = (1, [OutputRequired], w)"
  by (simp add: compress_mode_def)

lemma example_args_input_exists:
  "file_at (E\<lparr>cwd := [''work'']\<rparr>) example_world (args_input example_args) \<noteq> None"
  by (simp add: model_defs example_args_def example_world_def)

lemma main_split_nonzero:
  "main (E\<lparr>cwd := [''work'']\<rparr>) (example_args\<lparr>args_split := Some 1\<rparr>) example_world =
     split_mode (E\<lparr>cwd := [''work'']\<rparr>) (example_args\<lparr>args_split := Some 1\<rparr>) 1
       (example_world\<lparr>trace := [Exists ''in.pdf'']\<rparr>)"
  using example_args_input_exists [of E]
  by (simp add: main_def path_exists_def example_args_def) (simp add: example_world_def)

text \<open>
  C7. With an existing input, \<^verbatim>\<open>-s 0\<close> and no \<^verbatim>\<open>-o\<close>, a split size is given, and
  \<^verbatim>\<open>main\<close> does not split: it prints that an output path is required for compression
  and exits with status 1, and the only event is the existence check, so the input was
  never opened. The platform is any platform whose working directory is \<^verbatim>\<open>/work\<close>.
  (\<open>main_routing\<close> gives the routing for every command line, and \<open>main_split_nonzero\<close>
  the same command line with \<^verbatim>\<open>-s 1\<close>.)
\<close>

theorem main_split_zero:
  "args_split example_args = Some 0 \<and>
   file_at (E\<lparr>cwd := [''work'']\<rparr>) example_world (args_input example_args) \<noteq> None \<and>
   main (E\<lparr>cwd := [''work'']\<rparr>) example_args example_world =
     (1, [OutputRequired], example_world\<lparr>trace := [Exists ''in.pdf'']\<rparr>)"
proof -
  have a: "args_split example_args = Some 0" and b: "args_output example_args = None"
    and i: "args_input example_args = ''in.pdf''" and t: "trace example_world = []"
    by (simp_all add: example_args_def example_world_def)
  note e = example_args_input_exists [of E]
  from main_routing [OF e] a compress_mode_no_output [OF b] i t e show ?thesis by simp
qed

end
